theory Spec2Isabelle
  imports Main "HOL-Library.Multiset"
begin

section \<open>The stories-editor store: reducers and the right-click wrapper\<close>

text \<open>
  The development embeds the three reducers of the store (\<open>animations\<close>,
  \<open>currentPage\<close>, \<open>blocks\<close>) and the render function of the higher-order component
  \<open>withRightClickHandler\<close>.

  JavaScript values are modelled by their shape in this code: an identifier (a block's
  client id, a page id, an animation type) is a \<open>string\<close>; a value that may be
  \<^verbatim>\<open>undefined\<close> is an \<open>option\<close>, \<open>None\<close> being \<^verbatim>\<open>undefined\<close>; strict equality
  \<^verbatim>\<open>===\<close> between such values is HOL equality.
\<close>

subsection \<open>Values, completions\<close>

datatype error = TypeError

text \<open>
  How a call of a reducer ends. \<open>Return_State\<close> is the statement \<^verbatim>\<open>return state;\<close>: the
  caller gets the very object it passed in. \<open>Return_Object s\<close> is the return of an object
  literal \<^verbatim>\<open>{ ...state, ... }\<close>, a new object whose value is \<open>s\<close>. \<open>Throw e s\<close> is an
  exception; the store then keeps the object it had, and \<open>s\<close> is the value of that object
  after the writes the reducer made in place before it threw.
\<close>

datatype 's completion = Return_State | Return_Object 's | Throw error 's

fun state_after :: "'s \<Rightarrow> 's completion \<Rightarrow> 's" where
  "state_after s Return_State = s"
| "state_after s (Return_Object s') = s'"
| "state_after s (Throw e s') = s'"

text \<open>Truthiness of a string or \<^verbatim>\<open>undefined\<close>: \<^verbatim>\<open>undefined\<close> and \<^verbatim>\<open>''\<close> are falsy.\<close>

fun truthy :: "string option \<Rightarrow> bool" where
  "truthy None = False"
| "truthy (Some s) = (s \<noteq> [])"

text \<open>A computed property key \<^verbatim>\<open>[ page ]\<close>: \<^verbatim>\<open>undefined\<close> becomes the key \<^verbatim>\<open>'undefined'\<close>.\<close>

fun property_key :: "string option \<Rightarrow> string" where
  "property_key None = ''undefined''"
| "property_key (Some s) = s"

text \<open>\<^verbatim>\<open>ToIntegerOrInfinity\<close> on an integral number or \<^verbatim>\<open>undefined\<close> (which is \<open>NaN\<close>, so 0).\<close>

fun to_integer :: "int option \<Rightarrow> int" where
  "to_integer None = 0"
| "to_integer (Some i) = i"

text \<open>
  \<^verbatim>\<open>Array.prototype.findIndex\<close>: the index of the first element that satisfies the
  predicate, \<open>-1\<close> when there is none.
\<close>

fun findIndex_from :: "int \<Rightarrow> ('a \<Rightarrow> bool) \<Rightarrow> 'a list \<Rightarrow> int" where
  "findIndex_from k P [] = -1"
| "findIndex_from k P (x # xs) = (if P x then k else findIndex_from (k + 1) P xs)"

definition findIndex :: "('a \<Rightarrow> bool) \<Rightarrow> 'a list \<Rightarrow> int" where
  "findIndex P xs = findIndex_from 0 P xs"

text \<open>\<^verbatim>\<open>Array.prototype.indexOf\<close> on an array of strings, for a string or \<^verbatim>\<open>undefined\<close>.\<close>

definition indexOf :: "string list \<Rightarrow> string option \<Rightarrow> int" where
  "indexOf xs v = findIndex (\<lambda>x. Some x = v) xs"

text \<open>
  \<^verbatim>\<open>Array.prototype.splice( start, deleteCount, ...items )\<close>: a negative \<open>start\<close> counts
  from the end, and both \<open>start\<close> and \<open>deleteCount\<close> are clamped to the array. The result
  is the array as the call leaves it, and the array of deleted elements it returns.
\<close>

definition splice_start :: "int \<Rightarrow> nat \<Rightarrow> nat" where
  "splice_start relativeStart len =
     (if relativeStart < 0 then nat (max (int len + relativeStart) 0)
      else min (nat relativeStart) len)"

definition splice_array :: "'a list \<Rightarrow> int \<Rightarrow> nat \<Rightarrow> 'a list \<Rightarrow> 'a list \<times> 'a list" where
  "splice_array xs start deleteCount items =
     (let actualStart = splice_start start (length xs);
          actualDeleteCount = min deleteCount (length xs - actualStart)
      in (take actualStart xs @ items @ drop (actualStart + actualDeleteCount) xs,
          take actualDeleteCount (drop actualStart xs)))"

text \<open>
  The keys a \<^verbatim>\<open>for ... in\<close> loop enumerates on an array of length \<open>n\<close>: the indices
  \<open>0, ..., n - 1\<close> in ascending order, each as its decimal string.
\<close>

definition digit_char :: "nat \<Rightarrow> char" where
  "digit_char d = ''0123456789'' ! d"

function index_string :: "nat \<Rightarrow> string" where
  "index_string n =
     (if n < 10 then [digit_char n] else index_string (n div 10) @ [digit_char (n mod 10)])"
  by pat_completeness auto
termination
  by (relation "measure (\<lambda>n. n)") auto

declare index_string.simps [simp del]

definition array_keys :: "'a list \<Rightarrow> string list" where
  "array_keys xs = map index_string [0..<length xs]"

subsection \<open>The animation order of a page\<close>

text \<open>
  Modelled from the spec: the constant \<^verbatim>\<open>ANIMATION_STATUS\<close> of \<^verbatim>\<open>./constants\<close>, which is
  not among the sources. The spec gives an entry a status in {prepared, playing,
  stopped}; the reducer reads the three members \<^verbatim>\<open>playing\<close>, \<^verbatim>\<open>prepared\<close> and
  \<^verbatim>\<open>stopped\<close>, taken here as three distinct values.
\<close>

datatype ANIMATION_STATUS = playing | prepared | stopped

text \<open>
  An entry of a page's animation order. The reducer writes the fields \<^verbatim>\<open>id\<close> (here
  \<open>entry_id\<close>, since \<open>id\<close> is the identity function of HOL), \<^verbatim>\<open>parent\<close>,
  \<^verbatim>\<open>animationType\<close>, \<^verbatim>\<open>duration\<close>, \<^verbatim>\<open>delay\<close> and \<^verbatim>\<open>status\<close>; a field never written
  reads as \<^verbatim>\<open>undefined\<close>. Durations and delays are numbers the reducer stores and never
  computes with.
\<close>

record entry =
  entry_id :: "string option"
  parent :: "string option"
  animationType :: "string option"
  duration :: "int option"
  delay :: "int option"
  status :: "ANIMATION_STATUS option"

text \<open>
  The state of the \<open>animations\<close> reducer: an object whose key \<^verbatim>\<open>animationOrder\<close>, when
  present, maps a page to the array of its entries. Other keys of the object (the
  record's extension) are copied by \<^verbatim>\<open>...state\<close>. A call without a state binds the
  parameter to its default \<^verbatim>\<open>{}\<close>, which has no such key; the definitions below take
  the state so bound.
\<close>

record animations_state =
  animationOrder :: "(string \<rightharpoonup> entry list) option"

definition initial_animations_state :: animations_state where
  "initial_animations_state = \<lparr>animationOrder = None\<rparr>"

text \<open>
  An action: its \<^verbatim>\<open>type\<close> and the properties the reducers destructure from it, each
  \<^verbatim>\<open>undefined\<close> when the action does not carry it.
\<close>

record action =
  act_type :: string
  act_page :: "string option"
  act_item :: "string option"
  act_predecessor :: "string option"
  act_animationType :: "string option"
  act_duration :: "int option"
  act_delay :: "int option"
  act_order :: "string list option"
  act_index :: "int option"

text \<open>
  \<^verbatim>\<open>{ ...state.animationOrder }\<close>: the own keys of the state's \<^verbatim>\<open>animationOrder\<close>, none when
  the state has no such object.
\<close>

definition animationOrder_copy :: "'a animations_state_scheme \<Rightarrow> (string \<rightharpoonup> entry list)" where
  "animationOrder_copy state = (case animationOrder state of None \<Rightarrow> Map.empty | Some m \<Rightarrow> m)"

text \<open>
  The entries a state holds for a page: the array under the page's own key, and none
  when it has no such key. This is how the properties below read a state; it is not
  the reducer's lookup, which follows.
\<close>

definition page_entries :: "'a animations_state_scheme \<Rightarrow> string \<Rightarrow> entry list" where
  "page_entries state key =
     (case animationOrder_copy state key of None \<Rightarrow> [] | Some es \<Rightarrow> es)"

text \<open>
  \<^verbatim>\<open>animationOrder[ page ] || []\<close>. The copy is a plain object, so the lookup also finds
  what every object inherits from \<^verbatim>\<open>Object.prototype\<close>: for one of the keys below that
  is not an own key, it gives a function (for \<^verbatim>\<open>__proto__\<close>, the prototype object), which
  is truthy and is no array. The result is the page's own array, a new empty array for
  a key found nowhere, or \<open>None\<close> for such an inherited value.
\<close>

definition Object_prototype_keys :: "string list" where
  "Object_prototype_keys =
     [''constructor'', ''hasOwnProperty'', ''isPrototypeOf'', ''propertyIsEnumerable'',
      ''toLocaleString'', ''toString'', ''valueOf'', ''__proto__'', ''__defineGetter__'',
      ''__defineSetter__'', ''__lookupGetter__'', ''__lookupSetter__'']"

definition pageAnimationOrder_lookup :: "'a animations_state_scheme \<Rightarrow> string \<Rightarrow> entry list option" where
  "pageAnimationOrder_lookup state key =
     (case animationOrder_copy state key of
        Some es \<Rightarrow> Some es
      | None \<Rightarrow> if key \<in> set Object_prototype_keys then None else Some [])"

text \<open>
  Every case but the default calls \<^verbatim>\<open>findIndex\<close> (through \<open>entryIndex\<close>) or \<^verbatim>\<open>forEach\<close> on
  \<open>pageAnimationOrder\<close> before it writes anything. An inherited value has neither
  method, so the call throws a TypeError and the state is as it was.
\<close>

definition on_array :: "entry list option \<Rightarrow> 's \<Rightarrow> (entry list \<Rightarrow> 's completion) \<Rightarrow> 's completion" where
  "on_array pageAnimationOrder state rest =
     (case pageAnimationOrder of
        None \<Rightarrow> Throw TypeError state
      | Some es \<Rightarrow> rest es)"

text \<open>\<^verbatim>\<open>entryIndex\<close>: the position of the first entry with the given id, or \<open>-1\<close>.\<close>

definition entryIndex :: "entry list \<Rightarrow> string option \<Rightarrow> int" where
  "entryIndex pageAnimationOrder e = findIndex (\<lambda>x. entry_id x = e) pageAnimationOrder"

text \<open>
  \<^verbatim>\<open>pageAnimationOrder[ i ].field = value\<close> for an index \<open>i\<close> that \<open>entryIndex\<close> found: the
  entry at \<open>i\<close> is written in place.
\<close>

definition assign_at :: "entry list \<Rightarrow> int \<Rightarrow> (entry \<Rightarrow> entry) \<Rightarrow> entry list" where
  "assign_at es i f = es[nat i := f (es ! nat i)]"

text \<open>
  Modelled from the spec: the selector \<^verbatim>\<open>isValidAnimationPredecessor\<close> of \<^verbatim>\<open>./selectors\<close>,
  which is not among the sources. The spec says of it that predecessor references, when
  present, must point to another entry in the same page's sequence, enforced by a
  validity check before assignment. The reducer takes the check as a parameter; this
  definition is the check the spec describes, on the entries the state holds for the
  page.
\<close>

definition isValidAnimationPredecessor ::
  "'a animations_state_scheme \<Rightarrow> string option \<Rightarrow> string option \<Rightarrow> string option \<Rightarrow> bool" where
  "isValidAnimationPredecessor state page item predecessor =
     (case predecessor of
        None \<Rightarrow> True
      | Some p \<Rightarrow> predecessor \<noteq> item
          \<and> predecessor \<in> entry_id ` set (page_entries state (property_key page)))"

subsubsection \<open>The cases of the switch, on the page's array\<close>

definition case_ADD_ANIMATION :: "bool \<Rightarrow> action \<Rightarrow> entry list \<Rightarrow> entry list" where
  "case_ADD_ANIMATION valid action pageAnimationOrder =
     (let item = act_item action;
          parent' = (if valid then act_predecessor action else None)
      in if entryIndex pageAnimationOrder item \<noteq> -1
         then assign_at pageAnimationOrder (entryIndex pageAnimationOrder item)
                (\<lambda>e. e\<lparr>parent := parent'\<rparr>)
         else pageAnimationOrder @
                [\<lparr>entry_id = item, parent = parent', animationType = None,
                  duration = None, delay = None, status = None\<rparr>])"

text \<open>
  The loop \<^verbatim>\<open>for ( const successor in itemSuccessors )\<close>. Its variable runs over the
  keys of the array, the strings \<^verbatim>\<open>'0'\<close>, \<^verbatim>\<open>'1'\<close>, ... . \<open>itemPredecessor\<close> is the
  \<^verbatim>\<open>parent\<close> field of the item's entry, a string or \<^verbatim>\<open>undefined\<close>; reading
  \<^verbatim>\<open>itemPredecessor.parent\<close> gives \<^verbatim>\<open>undefined\<close> on a string and throws a TypeError on
  \<^verbatim>\<open>undefined\<close>. The result is the array as the loop leaves it, and the exception if
  it threw.
\<close>

fun reparent_loop :: "entry list \<Rightarrow> string option \<Rightarrow> string list \<Rightarrow> entry list \<times> error option" where
  "reparent_loop es itemPredecessor [] = (es, None)"
| "reparent_loop es itemPredecessor (successor # keys) =
     (if entryIndex es (Some successor) \<noteq> -1
      then (case itemPredecessor of
              None \<Rightarrow> (es, Some TypeError)
            | Some p \<Rightarrow>
                reparent_loop
                  (assign_at es (entryIndex es (Some successor)) (\<lambda>e. e\<lparr>parent := None\<rparr>))
                  itemPredecessor keys)
      else reparent_loop es itemPredecessor keys)"

definition case_CHANGE_ANIMATION_TYPE :: "action \<Rightarrow> entry list \<Rightarrow> entry list \<times> error option" where
  "case_CHANGE_ANIMATION_TYPE action pageAnimationOrder =
     (let item = act_item action;
          animationType' = act_animationType action
      in if entryIndex pageAnimationOrder item \<noteq> -1
         then (let es = assign_at pageAnimationOrder (entryIndex pageAnimationOrder item)
                          (\<lambda>e. e\<lparr>animationType := animationType'\<rparr>)
               in if \<not> truthy animationType'
                  then (let itemPredecessor = parent (es ! nat (entryIndex es item));
                            itemSuccessors = filter (\<lambda>e. parent e = item) es
                        in reparent_loop es itemPredecessor (array_keys itemSuccessors))
                  else (es, None))
         else (pageAnimationOrder @
                 [\<lparr>entry_id = item, parent = None, animationType = animationType',
                   duration = None, delay = None, status = None\<rparr>], None))"

definition case_CHANGE_ANIMATION_DURATION :: "action \<Rightarrow> entry list \<Rightarrow> entry list" where
  "case_CHANGE_ANIMATION_DURATION action pageAnimationOrder =
     (let item = act_item action
      in if entryIndex pageAnimationOrder item \<noteq> -1
         then assign_at pageAnimationOrder (entryIndex pageAnimationOrder item)
                (\<lambda>e. e\<lparr>duration := act_duration action\<rparr>)
         else pageAnimationOrder)"

definition case_CHANGE_ANIMATION_DELAY :: "action \<Rightarrow> entry list \<Rightarrow> entry list" where
  "case_CHANGE_ANIMATION_DELAY action pageAnimationOrder =
     (let item = act_item action
      in if entryIndex pageAnimationOrder item \<noteq> -1
         then assign_at pageAnimationOrder (entryIndex pageAnimationOrder item)
                (\<lambda>e. e\<lparr>delay := act_delay action\<rparr>)
         else pageAnimationOrder)"

definition case_PLAY_ANIMATION :: "action \<Rightarrow> entry list \<Rightarrow> entry list" where
  "case_PLAY_ANIMATION action pageAnimationOrder =
     (let item = act_item action
      in if truthy item
         then (if entryIndex pageAnimationOrder item \<noteq> -1
               then assign_at pageAnimationOrder (entryIndex pageAnimationOrder item)
                      (\<lambda>e. e\<lparr>status := Some playing\<rparr>)
               else pageAnimationOrder)
         else map (\<lambda>e. e\<lparr>status := Some (if parent e = None then playing else prepared)\<rparr>)
                pageAnimationOrder)"

definition case_STOP_ANIMATION :: "action \<Rightarrow> entry list \<Rightarrow> entry list" where
  "case_STOP_ANIMATION action pageAnimationOrder =
     (let item = act_item action
      in if truthy item
         then (if entryIndex pageAnimationOrder item \<noteq> -1
               then assign_at pageAnimationOrder (entryIndex pageAnimationOrder item)
                      (\<lambda>e. e\<lparr>status := Some stopped\<rparr>)
               else pageAnimationOrder)
         else map (\<lambda>e. e\<lparr>status := Some stopped\<rparr>) pageAnimationOrder)"

subsubsection \<open>The reducer\<close>

text \<open>
  The object every case but the default returns:
  \<^verbatim>\<open>{ ...state, animationOrder: { ...animationOrder, [ page ]: pageAnimationOrder } }\<close>.
\<close>

definition with_page :: "'a animations_state_scheme \<Rightarrow> string \<Rightarrow> entry list \<Rightarrow> 'a animations_state_scheme" where
  "with_page state key es = state\<lparr>animationOrder := Some ((animationOrder_copy state)(key \<mapsto> es))\<rparr>"

text \<open>
  \<open>pageAnimationOrder\<close> is the array the state holds for the page (a new array only when
  the state holds none), and the cases write to it in place. When the reducer throws
  after a write, the state the store keeps therefore shows the write.
\<close>

definition written_in_place :: "'a animations_state_scheme \<Rightarrow> string \<Rightarrow> entry list \<Rightarrow> 'a animations_state_scheme" where
  "written_in_place state key es =
     (case animationOrder_copy state key of None \<Rightarrow> state | Some old \<Rightarrow> with_page state key es)"

definition animations ::
  "('a animations_state_scheme \<Rightarrow> string option \<Rightarrow> string option \<Rightarrow> string option \<Rightarrow> bool)
     \<Rightarrow> 'a animations_state_scheme \<Rightarrow> action \<Rightarrow> 'a animations_state_scheme completion" where
  "animations isValid state action =
     (let page = act_page action;
          item = act_item action;
          predecessor = act_predecessor action;
          pageAnimationOrder = pageAnimationOrder_lookup state (property_key page)
      in if act_type action = ''ADD_ANIMATION'' then
           (let valid = isValid state page item predecessor
            in on_array pageAnimationOrder state (\<lambda>es.
                 Return_Object (with_page state (property_key page)
                   (case_ADD_ANIMATION valid action es))))
         else if act_type action = ''CHANGE_ANIMATION_TYPE'' then
           on_array pageAnimationOrder state (\<lambda>es.
             case case_CHANGE_ANIMATION_TYPE action es of
               (es', None) \<Rightarrow> Return_Object (with_page state (property_key page) es')
             | (es', Some e) \<Rightarrow> Throw e (written_in_place state (property_key page) es'))
         else if act_type action = ''CHANGE_ANIMATION_DURATION'' then
           on_array pageAnimationOrder state (\<lambda>es.
             Return_Object (with_page state (property_key page)
               (case_CHANGE_ANIMATION_DURATION action es)))
         else if act_type action = ''CHANGE_ANIMATION_DELAY'' then
           on_array pageAnimationOrder state (\<lambda>es.
             Return_Object (with_page state (property_key page)
               (case_CHANGE_ANIMATION_DELAY action es)))
         else if act_type action = ''PLAY_ANIMATION'' then
           on_array pageAnimationOrder state (\<lambda>es.
             Return_Object (with_page state (property_key page)
               (case_PLAY_ANIMATION action es)))
         else if act_type action = ''STOP_ANIMATION'' then
           on_array pageAnimationOrder state (\<lambda>es.
             Return_Object (with_page state (property_key page)
               (case_STOP_ANIMATION action es)))
         else Return_State)"

text \<open>
  The states the store can hold, for a given validity check: the default state \<^verbatim>\<open>{}\<close>,
  and the state after any action dispatched on such a state, whether the reducer
  returned or threw.
\<close>

inductive reachable ::
  "(animations_state \<Rightarrow> string option \<Rightarrow> string option \<Rightarrow> string option \<Rightarrow> bool)
     \<Rightarrow> animations_state \<Rightarrow> bool"
  for isValid where
  reachable_initial: "reachable isValid initial_animations_state"
| reachable_dispatch:
    "reachable isValid s \<Longrightarrow> reachable isValid (state_after s (animations isValid s a))"

text \<open>
  The invariant of a page's array: every entry whose \<^verbatim>\<open>parent\<close> is present names the id
  of an entry of the array, and not its own id.
\<close>

definition predecessors_valid :: "entry list \<Rightarrow> bool" where
  "predecessors_valid es =
     list_all (\<lambda>e. case parent e of
                      None \<Rightarrow> True
                    | Some p \<Rightarrow> parent e \<noteq> entry_id e \<and> parent e \<in> entry_id ` set es) es"

subsection \<open>The current page and the block order\<close>

text \<open>
  The state of \<open>currentPage\<close> is a page id or \<^verbatim>\<open>undefined\<close>, its default. The state of
  \<open>blocks\<close> is an object with the keys \<^verbatim>\<open>order\<close> and \<^verbatim>\<open>isReordering\<close>, both absent in its
  default \<^verbatim>\<open>{}\<close>. In \<^verbatim>\<open>MOVE_PAGE\<close>, \<^verbatim>\<open>state.order.indexOf\<close> throws a TypeError when the
  state has no order; when the order does not contain the page, \<^verbatim>\<open>indexOf\<close> gives \<open>-1\<close>,
  which \<^verbatim>\<open>splice\<close> reads as the last position.
\<close>

definition currentPage :: "string option \<Rightarrow> action \<Rightarrow> string option" where
  "currentPage state action =
     (let page = act_page action
      in if act_type action = ''SET_CURRENT_PAGE'' then page else state)"

record blocks_state =
  order :: "string list option"
  isReordering :: "bool option"

definition blocks :: "'a blocks_state_scheme \<Rightarrow> action \<Rightarrow> 'a blocks_state_scheme completion" where
  "blocks state action =
     (let order' = act_order action
      in if act_type action = ''START_REORDERING'' then
           Return_Object (state\<lparr>order := order', isReordering := Some True\<rparr>)
         else if act_type action = ''STOP_REORDERING'' then
           Return_Object (state\<lparr>isReordering := Some False\<rparr>)
         else if act_type action = ''MOVE_PAGE'' then
           (let page = act_page action; index = act_index action
            in case order state of
                 None \<Rightarrow> Throw TypeError state
               | Some stateOrder \<Rightarrow>
                   (let oldIndex = indexOf stateOrder page;
                        (shortened, moved) = splice_array stateOrder oldIndex 1 [];
                        (newBlockOrder, deleted) = splice_array shortened (to_integer index) 0 moved
                    in Return_Object (state\<lparr>order := Some newBlockOrder\<rparr>)))
         else if act_type action = ''RESET_ORDER'' then
           Return_Object (state\<lparr>order := order', isReordering := Some False\<rparr>)
         else Return_State)"

subsection \<open>The right-click wrapper\<close>

text \<open>
  What the wrapped component renders: the element \<^verbatim>\<open><BlockEdit { ...props } />\<close> of the
  component it was given, or that element inside a \<^verbatim>\<open>div\<close> with an \<^verbatim>\<open>onContextMenu\<close>
  handler. The props are those the render function receives, with \<^verbatim>\<open>isReordering\<close> and
  \<^verbatim>\<open>onContextMenu\<close> as \<^verbatim>\<open>enhanced\<close> supplies them; \<^verbatim>\<open>isReordering\<close> is read for its
  truthiness only. The list \<^verbatim>\<open>ALLOWED_CHILD_BLOCKS\<close> of \<^verbatim>\<open>../../constants\<close> is not among
  the sources and is a parameter.
\<close>

record 'h props =
  name :: string
  onContextMenu :: 'h
  prop_isReordering :: bool

datatype ('c, 'p, 'h) element =
  Component 'c 'p
| Div_onContextMenu 'h "('c, 'p, 'h) element"

definition withRightClickHandler ::
  "string list \<Rightarrow> 'c \<Rightarrow> ('h, 'a) props_scheme \<Rightarrow> ('c, ('h, 'a) props_scheme, 'h) element" where
  "withRightClickHandler ALLOWED_CHILD_BLOCKS BlockEdit props =
     (let isPageBlock = (''amp/amp-story-page'' = name props)
      in if \<not> isPageBlock \<and> \<not> List.member ALLOWED_CHILD_BLOCKS (name props) then
           Component BlockEdit props
         else if prop_isReordering props then
           Component BlockEdit props
         else
           Div_onContextMenu (onContextMenu props) (Component BlockEdit props))"

subsection \<open>Example values\<close>

text \<open>
  An action of the given type that carries nothing else, an entry as \<^verbatim>\<open>ADD_ANIMATION\<close>
  creates it, and a state with one page whose three entries form the chain
  \<open>a \<leftarrow> b \<leftarrow> c\<close>.
\<close>

definition new_action :: "string \<Rightarrow> action" where
  "new_action t =
     \<lparr>act_type = t, act_page = None, act_item = None, act_predecessor = None,
      act_animationType = None, act_duration = None, act_delay = None, act_order = None,
      act_index = None\<rparr>"

definition new_entry :: "string \<Rightarrow> string option \<Rightarrow> entry" where
  "new_entry i p =
     \<lparr>entry_id = Some i, parent = p, animationType = None, duration = None, delay = None,
      status = None\<rparr>"

definition example_entries :: "entry list" where
  "example_entries =
     [new_entry ''a'' None, new_entry ''b'' (Some ''a''), new_entry ''c'' (Some ''b'')]"

definition example_state :: animations_state where
  "example_state = \<lparr>animationOrder = Some [''page'' \<mapsto> example_entries]\<rparr>"

text \<open>The same chain with every entry animated.\<close>

definition animated_entries :: "entry list" where
  "animated_entries = map (\<lambda>e. e\<lparr>animationType := Some ''fade-in''\<rparr>) example_entries"

definition animated_state :: animations_state where
  "animated_state = \<lparr>animationOrder = Some [''page'' \<mapsto> animated_entries]\<rparr>"

section \<open>Properties\<close>

subsection \<open>Array searches and writes\<close>

lemma findIndex_from_takeWhile:
  "0 \<le> k \<Longrightarrow> findIndex_from k P xs =
     (if \<exists>x\<in>set xs. P x then k + int (length (takeWhile (\<lambda>x. \<not> P x) xs)) else -1)"
  by (induction xs arbitrary: k) auto

lemma findIndex_takeWhile:
  "findIndex P xs = (if \<exists>x\<in>set xs. P x then int (length (takeWhile (\<lambda>x. \<not> P x) xs)) else -1)"
  by (simp add: findIndex_def findIndex_from_takeWhile)

lemma findIndex_absent: "(findIndex P xs = -1) = (\<forall>x\<in>set xs. \<not> P x)"
  by (simp add: findIndex_takeWhile)

lemma takeWhile_short: "\<exists>x\<in>set xs. P x \<Longrightarrow> length (takeWhile (\<lambda>x. \<not> P x) xs) < length xs"
  by (induction xs) auto

lemma findIndex_found:
  assumes "findIndex P xs \<noteq> -1"
  shows "0 \<le> findIndex P xs" and "nat (findIndex P xs) < length xs"
    and "P (xs ! nat (findIndex P xs))"
    and "\<forall>j < nat (findIndex P xs). \<not> P (xs ! j)"
proof -
  from assms have ex: "\<exists>x\<in>set xs. P x" by (simp add: findIndex_absent)
  then have eq: "findIndex P xs = int (length (takeWhile (\<lambda>x. \<not> P x) xs))"
    by (simp add: findIndex_takeWhile)
  show "0 \<le> findIndex P xs" by (simp add: eq)
  from ex have lt: "length (takeWhile (\<lambda>x. \<not> P x) xs) < length xs"
    by (rule takeWhile_short)
  then show "nat (findIndex P xs) < length xs" by (simp add: eq)
  from lt show "P (xs ! nat (findIndex P xs))"
    using nth_length_takeWhile[of "\<lambda>x. \<not> P x" xs] by (simp add: eq)
  show "\<forall>j < nat (findIndex P xs). \<not> P (xs ! j)"
  proof (intro allI impI)
    fix j assume "j < nat (findIndex P xs)"
    then have j: "j < length (takeWhile (\<lambda>x. \<not> P x) xs)" by (simp add: eq)
    then have "takeWhile (\<lambda>x. \<not> P x) xs ! j = xs ! j" by (rule takeWhile_nth)
    moreover from j have "takeWhile (\<lambda>x. \<not> P x) xs ! j \<in> set (takeWhile (\<lambda>x. \<not> P x) xs)"
      by (rule nth_mem)
    ultimately show "\<not> P (xs ! j)" using set_takeWhileD by fastforce
  qed
qed

lemma entryIndex_absent: "(entryIndex es x = -1) = (x \<notin> entry_id ` set es)"
  by (auto simp: entryIndex_def findIndex_absent)

lemma entryIndex_found:
  assumes "entryIndex es x \<noteq> -1"
  shows "nat (entryIndex es x) < length es"
    and "entry_id (es ! nat (entryIndex es x)) = x"
    and "\<forall>j < nat (entryIndex es x). entry_id (es ! j) \<noteq> x"
  using assms findIndex_found[of "\<lambda>e. entry_id e = x" es] by (simp_all add: entryIndex_def)

lemma length_assign_at: "length (assign_at es i f) = length es"
  by (simp add: assign_at_def)

lemma map_entry_id_assign_at:
  "(\<And>e. entry_id (f e) = entry_id e) \<Longrightarrow> map entry_id (assign_at es i f) = map entry_id es"
proof -
  assume f: "\<And>e. entry_id (f e) = entry_id e"
  show ?thesis
  proof (cases "nat i < length es")
    case True
    then show ?thesis
      by (simp add: assign_at_def map_update f list_eq_iff_nth_eq nth_list_update)
  next
    case False
    then have "es[nat i := f (es ! nat i)] = es" by (intro list_update_beyond) simp
    then show ?thesis by (simp add: assign_at_def)
  qed
qed

lemma nth_assign_at:
  "i < length es \<Longrightarrow> assign_at es k f ! i = (if i = nat k then f (es ! i) else es ! i)"
  by (simp add: assign_at_def nth_list_update)

lemma assign_at_first:
  assumes "x \<in> entry_id ` set es"
  shows "entryIndex es x \<noteq> -1"
    and "\<exists>i<length es. entry_id (es ! i) = x \<and> (\<forall>j<i. entry_id (es ! j) \<noteq> x) \<and>
           assign_at es (entryIndex es x) f = es[i := f (es ! i)]"
proof -
  from assms show found: "entryIndex es x \<noteq> -1" by (simp add: entryIndex_absent)
  have "assign_at es (entryIndex es x) f =
      es[nat (entryIndex es x) := f (es ! nat (entryIndex es x))]"
    by (simp add: assign_at_def)
  with entryIndex_found[OF found]
  show "\<exists>i<length es. entry_id (es ! i) = x \<and> (\<forall>j<i. entry_id (es ! j) \<noteq> x) \<and>
           assign_at es (entryIndex es x) f = es[i := f (es ! i)]"
    by blast
qed

subsection \<open>Reading the state\<close>

lemma animationOrder_copy_with_page:
  "animationOrder_copy (with_page s k es) k' = (if k' = k then Some es else animationOrder_copy s k')"
  by (simp add: with_page_def animationOrder_copy_def)

lemma page_entries_with_page:
  "page_entries (with_page s k es) k' = (if k' = k then es else page_entries s k')"
  by (simp add: page_entries_def animationOrder_copy_with_page)

lemma more_with_page: "animations_state.more (with_page s k es) = animations_state.more s"
  by (simp add: with_page_def)

lemma page_entries_written_in_place:
  "page_entries (written_in_place s k es) k' =
     (if k' = k \<and> animationOrder_copy s k \<noteq> None then es else page_entries s k')"
  by (auto simp: written_in_place_def page_entries_with_page split: option.splits)

lemma page_entries_example: "page_entries example_state ''page'' = example_entries"
  by (simp add: page_entries_def animationOrder_copy_def example_state_def)

lemma page_entries_animated: "page_entries animated_state ''page'' = animated_entries"
  by (simp add: page_entries_def animationOrder_copy_def animated_state_def)

lemma page_entries_nonempty_key:
  "page_entries s k \<noteq> [] \<Longrightarrow> animationOrder_copy s k \<noteq> None"
  by (cases "animationOrder_copy s k") (simp_all add: page_entries_def)

text \<open>
  The reducer's lookup gives the entries the state holds for the page when the page is
  an own key, or is not one of the keys inherited from \<^verbatim>\<open>Object.prototype\<close>; an entry
  of the page makes the page an own key.
\<close>

lemma pageAnimationOrder_lookup_array:
  "animationOrder_copy s k \<noteq> None \<or> k \<notin> set Object_prototype_keys \<Longrightarrow>
   pageAnimationOrder_lookup s k = Some (page_entries s k)"
  by (auto simp: pageAnimationOrder_lookup_def page_entries_def split: option.splits)

lemma pageAnimationOrder_lookup_None:
  "(pageAnimationOrder_lookup s k = None) =
     (animationOrder_copy s k = None \<and> k \<in> set Object_prototype_keys)"
  by (auto simp: pageAnimationOrder_lookup_def split: option.splits)

lemma pageAnimationOrder_lookup_cases:
  obtains (inherited) "pageAnimationOrder_lookup s k = None" "page_entries s k = []"
  | (array) "pageAnimationOrder_lookup s k = Some (page_entries s k)"
proof (cases "pageAnimationOrder_lookup s k = None")
  case True
  then have "animationOrder_copy s k = None" by (simp add: pageAnimationOrder_lookup_None)
  then have "page_entries s k = []" by (simp add: page_entries_def)
  with True show ?thesis by (rule inherited)
next
  case False
  then have "animationOrder_copy s k \<noteq> None \<or> k \<notin> set Object_prototype_keys"
    by (auto simp: pageAnimationOrder_lookup_None)
  then have "pageAnimationOrder_lookup s k = Some (page_entries s k)"
    by (rule pageAnimationOrder_lookup_array)
  then show ?thesis by (rule array)
qed

lemma pageAnimationOrder_lookup_entry:
  assumes "x \<in> entry_id ` set (page_entries s k)"
  shows "pageAnimationOrder_lookup s k = Some (page_entries s k)"
proof -
  from assms have "page_entries s k \<noteq> []" by auto
  then have "animationOrder_copy s k \<noteq> None" by (rule page_entries_nonempty_key)
  then show ?thesis by (intro pageAnimationOrder_lookup_array disjI1)
qed

lemma pageAnimationOrder_lookup_example:
  "pageAnimationOrder_lookup example_state ''page'' = Some example_entries"
  by (simp add: pageAnimationOrder_lookup_def animationOrder_copy_def example_state_def)

lemma pageAnimationOrder_lookup_animated:
  "pageAnimationOrder_lookup animated_state ''page'' = Some animated_entries"
  by (simp add: pageAnimationOrder_lookup_def animationOrder_copy_def animated_state_def)

lemma own_key_example: "animationOrder_copy example_state ''page'' \<noteq> None"
  by (simp add: animationOrder_copy_def example_state_def)

subsection \<open>What each case returns\<close>

lemma animations_ADD_ANIMATION:
  "act_type a = ''ADD_ANIMATION'' \<Longrightarrow>
   pageAnimationOrder_lookup s (property_key (act_page a)) =
     Some (page_entries s (property_key (act_page a))) \<Longrightarrow>
   animations isValid s a = Return_Object (with_page s (property_key (act_page a))
     (case_ADD_ANIMATION (isValid s (act_page a) (act_item a) (act_predecessor a)) a
        (page_entries s (property_key (act_page a)))))"
  by (simp add: animations_def Let_def on_array_def)

lemma animations_CHANGE_ANIMATION_TYPE:
  "act_type a = ''CHANGE_ANIMATION_TYPE'' \<Longrightarrow>
   pageAnimationOrder_lookup s (property_key (act_page a)) =
     Some (page_entries s (property_key (act_page a))) \<Longrightarrow>
   animations isValid s a =
     (case case_CHANGE_ANIMATION_TYPE a (page_entries s (property_key (act_page a))) of
        (es, None) \<Rightarrow> Return_Object (with_page s (property_key (act_page a)) es)
      | (es, Some e) \<Rightarrow> Throw e (written_in_place s (property_key (act_page a)) es))"
  by (simp add: animations_def Let_def on_array_def)

lemma animations_CHANGE_ANIMATION_DURATION:
  "act_type a = ''CHANGE_ANIMATION_DURATION'' \<Longrightarrow>
   pageAnimationOrder_lookup s (property_key (act_page a)) =
     Some (page_entries s (property_key (act_page a))) \<Longrightarrow>
   animations isValid s a = Return_Object (with_page s (property_key (act_page a))
     (case_CHANGE_ANIMATION_DURATION a (page_entries s (property_key (act_page a)))))"
  by (simp add: animations_def Let_def on_array_def)

lemma animations_CHANGE_ANIMATION_DELAY:
  "act_type a = ''CHANGE_ANIMATION_DELAY'' \<Longrightarrow>
   pageAnimationOrder_lookup s (property_key (act_page a)) =
     Some (page_entries s (property_key (act_page a))) \<Longrightarrow>
   animations isValid s a = Return_Object (with_page s (property_key (act_page a))
     (case_CHANGE_ANIMATION_DELAY a (page_entries s (property_key (act_page a)))))"
  by (simp add: animations_def Let_def on_array_def)

lemma animations_PLAY_ANIMATION:
  "act_type a = ''PLAY_ANIMATION'' \<Longrightarrow>
   pageAnimationOrder_lookup s (property_key (act_page a)) =
     Some (page_entries s (property_key (act_page a))) \<Longrightarrow>
   animations isValid s a = Return_Object (with_page s (property_key (act_page a))
     (case_PLAY_ANIMATION a (page_entries s (property_key (act_page a)))))"
  by (simp add: animations_def Let_def on_array_def)

lemma animations_STOP_ANIMATION:
  "act_type a = ''STOP_ANIMATION'' \<Longrightarrow>
   pageAnimationOrder_lookup s (property_key (act_page a)) =
     Some (page_entries s (property_key (act_page a))) \<Longrightarrow>
   animations isValid s a = Return_Object (with_page s (property_key (act_page a))
     (case_STOP_ANIMATION a (page_entries s (property_key (act_page a)))))"
  by (simp add: animations_def Let_def on_array_def)

lemma animations_default:
  "act_type a \<notin> {''ADD_ANIMATION'', ''CHANGE_ANIMATION_TYPE'', ''CHANGE_ANIMATION_DURATION'',
      ''CHANGE_ANIMATION_DELAY'', ''PLAY_ANIMATION'', ''STOP_ANIMATION''} \<Longrightarrow>
   animations isValid s a = Return_State"
  by (simp add: animations_def Let_def)

lemma blocks_default:
  "act_type a \<notin> {''START_REORDERING'', ''STOP_REORDERING'', ''MOVE_PAGE'', ''RESET_ORDER''} \<Longrightarrow>
   blocks b a = Return_State"
  by (simp add: blocks_def Let_def)

lemma targeted_write:
  assumes "act_item a \<in> entry_id ` set (page_entries s k)"
  shows "\<exists>i. i < length (page_entries s k) \<and> entry_id (page_entries s k ! i) = act_item a \<and>
      (\<forall>j<i. entry_id (page_entries s k ! j) \<noteq> act_item a) \<and>
      length (page_entries (with_page s k (assign_at (page_entries s k) (entryIndex (page_entries s k) (act_item a)) f)) k)
        = length (page_entries s k) \<and>
      (\<forall>j<length (page_entries s k). j \<noteq> i \<longrightarrow>
         page_entries (with_page s k (assign_at (page_entries s k) (entryIndex (page_entries s k) (act_item a)) f)) k ! j
           = page_entries s k ! j) \<and>
      page_entries (with_page s k (assign_at (page_entries s k) (entryIndex (page_entries s k) (act_item a)) f)) k ! i
        = f (page_entries s k ! i)"
proof -
  let ?es = "page_entries s k"
  from assign_at_first(2)[OF assms, of f]
  obtain i where i: "i < length ?es" "entry_id (?es ! i) = act_item a"
      "\<forall>j<i. entry_id (?es ! j) \<noteq> act_item a"
      and eq: "assign_at ?es (entryIndex ?es (act_item a)) f = ?es[i := f (?es ! i)]"
    by blast
  show ?thesis
    apply (rule exI[of _ i])
    using i by (simp add: eq page_entries_with_page)
qed

text \<open>
  For a page key inherited from \<^verbatim>\<open>Object.prototype\<close> that the state does not hold, every
  case but the default throws a TypeError before it writes, and the state is as it was.
  On the default state: adding to the page \<^verbatim>\<open>constructor\<close> and playing it throw, adding
  to the page \<^verbatim>\<open>page\<close> returns the state with the new entry.
\<close>

lemma animations_inherited_key:
  "act_type a \<in> {''ADD_ANIMATION'', ''CHANGE_ANIMATION_TYPE'', ''CHANGE_ANIMATION_DURATION'',
      ''CHANGE_ANIMATION_DELAY'', ''PLAY_ANIMATION'', ''STOP_ANIMATION''} \<Longrightarrow>
   pageAnimationOrder_lookup s (property_key (act_page a)) = None \<Longrightarrow>
   animations isValid s a = Throw TypeError s"
  by (auto simp: animations_def Let_def on_array_def)

lemma animations_no_array:
  "pageAnimationOrder_lookup s (property_key (act_page a)) = None \<Longrightarrow>
   state_after s (animations isValid s a) = s"
proof -
  assume n: "pageAnimationOrder_lookup s (property_key (act_page a)) = None"
  show ?thesis
  proof (cases "act_type a \<in> {''ADD_ANIMATION'', ''CHANGE_ANIMATION_TYPE'',
      ''CHANGE_ANIMATION_DURATION'', ''CHANGE_ANIMATION_DELAY'', ''PLAY_ANIMATION'',
      ''STOP_ANIMATION''}")
    case True
    then have "animations isValid s a = Throw TypeError s" using n by (rule animations_inherited_key)
    then show ?thesis by simp
  next
    case False
    then have "animations isValid s a = Return_State" by (rule animations_default)
    then show ?thesis by simp
  qed
qed

lemma add_animation_on_inherited_key_throws:
  "animations isValidAnimationPredecessor initial_animations_state
     ((new_action ''ADD_ANIMATION'')\<lparr>act_page := Some ''constructor'', act_item := Some ''a''\<rparr>)
   = Throw TypeError initial_animations_state
   \<and> animations isValidAnimationPredecessor initial_animations_state
     ((new_action ''PLAY_ANIMATION'')\<lparr>act_page := Some ''constructor''\<rparr>)
   = Throw TypeError initial_animations_state
   \<and> animations isValidAnimationPredecessor initial_animations_state
     ((new_action ''ADD_ANIMATION'')\<lparr>act_page := Some ''page'', act_item := Some ''a''\<rparr>)
   = Return_Object \<lparr>animationOrder = Some [''page'' \<mapsto> [new_entry ''a'' None]]\<rparr>"
  by (simp add: animations_def Let_def on_array_def pageAnimationOrder_lookup_def
      Object_prototype_keys_def animationOrder_copy_def initial_animations_state_def
      new_action_def with_page_def case_ADD_ANIMATION_def entryIndex_def findIndex_def
      isValidAnimationPredecessor_def page_entries_def new_entry_def)

subsection \<open>Adding an animation\<close>

text \<open>
  C3. \<^verbatim>\<open>ADD_ANIMATION\<close>, for a page that is an own key of the state's animation order or
  is not a key inherited from \<^verbatim>\<open>Object.prototype\<close>, returns a new state. When no entry
  of the page has the item's id, the page's array is the old one with exactly one new
  entry appended, which has that id. When an entry has it, the first such entry gets
  the new parent in place, and the number of entries and the multiset of ids are
  unchanged. The parent stored is the action's predecessor when the validity check
  accepts it, and \<^verbatim>\<open>undefined\<close> otherwise. This holds for every validity check.
\<close>

theorem add_animation_appends_or_updates:
  assumes "act_type a = ''ADD_ANIMATION''"
    and "animationOrder_copy s (property_key (act_page a)) \<noteq> None
        \<or> property_key (act_page a) \<notin> set Object_prototype_keys"
  shows "\<exists>s'. animations isValid s a = Return_Object s' \<and>
    (let es = page_entries s (property_key (act_page a));
         es' = page_entries s' (property_key (act_page a));
         p = (if isValid s (act_page a) (act_item a) (act_predecessor a)
              then act_predecessor a else None)
     in (act_item a \<notin> entry_id ` set es \<longrightarrow>
           es' = es @ [\<lparr>entry_id = act_item a, parent = p, animationType = None,
                        duration = None, delay = None, status = None\<rparr>])
      \<and> (act_item a \<in> entry_id ` set es \<longrightarrow>
           length es' = length es \<and> mset (map entry_id es') = mset (map entry_id es) \<and>
           (\<exists>i < length es. entry_id (es ! i) = act_item a \<and>
              (\<forall>j < i. entry_id (es ! j) \<noteq> act_item a) \<and>
              es' = es[i := (es ! i)\<lparr>parent := p\<rparr>])))"
proof -
  let ?k = "property_key (act_page a)"
  let ?es = "page_entries s ?k"
  let ?p = "if isValid s (act_page a) (act_item a) (act_predecessor a)
              then act_predecessor a else None"
  let ?es' = "case_ADD_ANIMATION (isValid s (act_page a) (act_item a) (act_predecessor a)) a ?es"
  have lk: "pageAnimationOrder_lookup s ?k = Some ?es"
    using assms(2) by (rule pageAnimationOrder_lookup_array)
  have ret: "animations isValid s a = Return_Object (with_page s ?k ?es')"
    using assms(1) lk by (simp add: animations_ADD_ANIMATION)
  have absent: "act_item a \<notin> entry_id ` set ?es \<Longrightarrow>
      ?es' = ?es @ [\<lparr>entry_id = act_item a, parent = ?p, animationType = None,
                        duration = None, delay = None, status = None\<rparr>]"
    by (simp add: case_ADD_ANIMATION_def entryIndex_absent)
  have present: "length ?es' = length ?es \<and> mset (map entry_id ?es') = mset (map entry_id ?es) \<and>
           (\<exists>i < length ?es. entry_id (?es ! i) = act_item a \<and>
              (\<forall>j < i. entry_id (?es ! j) \<noteq> act_item a) \<and>
              ?es' = ?es[i := (?es ! i)\<lparr>parent := ?p\<rparr>])"
    if "act_item a \<in> entry_id ` set ?es"
  proof -
    from that have found: "entryIndex ?es (act_item a) \<noteq> -1" by (simp add: entryIndex_absent)
    then have eq: "?es' = assign_at ?es (entryIndex ?es (act_item a)) (\<lambda>e. e\<lparr>parent := ?p\<rparr>)"
      by (simp add: case_ADD_ANIMATION_def)
    have "map entry_id ?es' = map entry_id ?es"
      unfolding eq by (rule map_entry_id_assign_at) simp
    then have "mset (map entry_id ?es') = mset (map entry_id ?es)" by simp
    moreover have "length ?es' = length ?es" unfolding eq by (rule length_assign_at)
    moreover have "?es' = ?es[nat (entryIndex ?es (act_item a)) := (?es ! nat (entryIndex ?es (act_item a)))\<lparr>parent := ?p\<rparr>]"
      unfolding eq by (simp add: assign_at_def)
    ultimately show ?thesis using entryIndex_found[OF found] by blast
  qed
  show ?thesis
    unfolding ret using absent present by (simp add: page_entries_with_page Let_def)
qed

text \<open>
  On the chain \<open>a \<leftarrow> b \<leftarrow> c\<close>: adding \<open>c\<close> again with the predecessor \<open>a\<close> keeps three
  entries and their ids; adding \<open>d\<close> with the predecessor \<open>c\<close> appends its entry.
\<close>

theorem add_animation_appends_or_updates_witness:
  "act_type ((new_action ''ADD_ANIMATION'')\<lparr>act_page := Some ''page'', act_item := Some ''c'',
       act_predecessor := Some ''a''\<rparr>) = ''ADD_ANIMATION''
   \<and> animationOrder_copy example_state ''page'' \<noteq> None
   \<and> Some ''c'' \<in> entry_id ` set (page_entries example_state ''page'')
   \<and> (\<exists>s'. animations isValidAnimationPredecessor example_state
          ((new_action ''ADD_ANIMATION'')\<lparr>act_page := Some ''page'', act_item := Some ''c'',
             act_predecessor := Some ''a''\<rparr>) = Return_Object s'
        \<and> length (page_entries s' ''page'') = 3
        \<and> mset (map entry_id (page_entries s' ''page'')) = {#Some ''a'', Some ''b'', Some ''c''#})
   \<and> act_type ((new_action ''ADD_ANIMATION'')\<lparr>act_page := Some ''page'', act_item := Some ''d'',
       act_predecessor := Some ''c''\<rparr>) = ''ADD_ANIMATION''
   \<and> Some ''d'' \<notin> entry_id ` set (page_entries example_state ''page'')
   \<and> (\<exists>s'. animations isValidAnimationPredecessor example_state
          ((new_action ''ADD_ANIMATION'')\<lparr>act_page := Some ''page'', act_item := Some ''d'',
             act_predecessor := Some ''c''\<rparr>) = Return_Object s'
        \<and> page_entries s' ''page'' = example_entries @ [new_entry ''d'' (Some ''c'')])"
proof -
  let ?a = "(new_action ''ADD_ANIMATION'')\<lparr>act_page := Some ''page'', act_item := Some ''c'',
       act_predecessor := Some ''a''\<rparr>"
  let ?b = "(new_action ''ADD_ANIMATION'')\<lparr>act_page := Some ''page'', act_item := Some ''d'',
       act_predecessor := Some ''c''\<rparr>"
  have h: "act_type ?a = ''ADD_ANIMATION''" by (simp add: new_action_def)
  have ka: "property_key (act_page ?a) = ''page''" by (simp add: new_action_def)
  have kb: "property_key (act_page ?b) = ''page''" by (simp add: new_action_def)
  note own = own_key_example
  have oa: "animationOrder_copy example_state (property_key (act_page ?a)) \<noteq> None
        \<or> property_key (act_page ?a) \<notin> set Object_prototype_keys"
    unfolding ka using own by (rule disjI1)
  have ob: "animationOrder_copy example_state (property_key (act_page ?b)) \<noteq> None
        \<or> property_key (act_page ?b) \<notin> set Object_prototype_keys"
    unfolding kb using own by (rule disjI1)
  have m: "Some ''c'' \<in> entry_id ` set (page_entries example_state ''page'')"
    by (simp add: page_entries_example example_entries_def new_entry_def)
  from add_animation_appends_or_updates[OF h oa, of isValidAnimationPredecessor]
  obtain s' where r: "animations isValidAnimationPredecessor example_state ?a = Return_Object s'"
    and l: "length (page_entries s' ''page'') = length (page_entries example_state ''page'')"
    and ms: "mset (map entry_id (page_entries s' ''page'')) = mset (map entry_id (page_entries example_state ''page''))"
    using m by (auto simp: Let_def new_action_def)
  have 1: "\<exists>s'. animations isValidAnimationPredecessor example_state ?a = Return_Object s'
        \<and> length (page_entries s' ''page'') = 3
        \<and> mset (map entry_id (page_entries s' ''page'')) = {#Some ''a'', Some ''b'', Some ''c''#}"
    using r l ms by (simp add: page_entries_example example_entries_def new_entry_def)
  have h': "act_type ?b = ''ADD_ANIMATION''" by (simp add: new_action_def)
  have f: "property_key (act_page ?b) = ''page''" "act_item ?b = Some ''d''"
    "act_predecessor ?b = Some ''c''" "act_page ?b = Some ''page''"
    by (simp_all add: new_action_def)
  have n: "Some ''d'' \<notin> entry_id ` set (page_entries example_state ''page'')"
    by (simp add: page_entries_example example_entries_def new_entry_def)
  have v: "isValidAnimationPredecessor example_state (Some ''page'') (Some ''d'') (Some ''c'')"
    by (simp add: isValidAnimationPredecessor_def page_entries_example example_entries_def
        new_entry_def)
  from add_animation_appends_or_updates[OF h' ob, of isValidAnimationPredecessor]
  obtain s'' where r': "animations isValidAnimationPredecessor example_state ?b = Return_Object s''"
    and e: "page_entries s'' ''page'' = page_entries example_state ''page'' @
        [\<lparr>entry_id = Some ''d'', parent = Some ''c'', animationType = None,
          duration = None, delay = None, status = None\<rparr>]"
    unfolding Let_def f using n v by auto
  have 2: "\<exists>s'. animations isValidAnimationPredecessor example_state ?b = Return_Object s'
        \<and> page_entries s' ''page'' = example_entries @ [new_entry ''d'' (Some ''c'')]"
    using r' e by (simp add: page_entries_example new_entry_def)
  show ?thesis using h own m 1 h' n 2 by (intro conjI)
qed

subsection \<open>Changes to one entry\<close>

text \<open>
  C10. \<^verbatim>\<open>CHANGE_ANIMATION_DURATION\<close>, \<^verbatim>\<open>CHANGE_ANIMATION_DELAY\<close>, and \<^verbatim>\<open>PLAY_ANIMATION\<close>
  and \<^verbatim>\<open>STOP_ANIMATION\<close> with an item, on a page that has an entry with the item's id:
  the first such entry, at position \<open>i\<close>, gets the one field written (the duration, the
  delay, or the status \<open>playing\<close> or \<open>stopped\<close>) and is otherwise as before, so its id
  and parent are unchanged; every other entry of the page, the array of every other
  page, and every other key of the state are unchanged.
\<close>

theorem targeted_change_frame:
  assumes "act_type a \<in> {''CHANGE_ANIMATION_DURATION'', ''CHANGE_ANIMATION_DELAY''}
           \<or> act_type a \<in> {''PLAY_ANIMATION'', ''STOP_ANIMATION''} \<and> truthy (act_item a)"
    and "act_item a \<in> entry_id ` set (page_entries s (property_key (act_page a)))"
  shows "\<exists>s' i. animations isValid s a = Return_Object s' \<and>
    (let key = property_key (act_page a); es = page_entries s key; es' = page_entries s' key
     in i < length es \<and> entry_id (es ! i) = act_item a \<and>
        (\<forall>j<i. entry_id (es ! j) \<noteq> act_item a) \<and>
        length es' = length es \<and>
        (\<forall>j<length es. j \<noteq> i \<longrightarrow> es' ! j = es ! j) \<and>
        es' ! i =
          (if act_type a = ''CHANGE_ANIMATION_DURATION'' then (es ! i)\<lparr>duration := act_duration a\<rparr>
           else if act_type a = ''CHANGE_ANIMATION_DELAY'' then (es ! i)\<lparr>delay := act_delay a\<rparr>
           else if act_type a = ''PLAY_ANIMATION'' then (es ! i)\<lparr>status := Some playing\<rparr>
           else (es ! i)\<lparr>status := Some stopped\<rparr>) \<and>
        entry_id (es' ! i) = entry_id (es ! i) \<and> parent (es' ! i) = parent (es ! i) \<and>
        (\<forall>k. k \<noteq> key \<longrightarrow> animationOrder_copy s' k = animationOrder_copy s k) \<and>
        animations_state.more s' = animations_state.more s)"
proof -
  let ?k = "property_key (act_page a)"
  let ?es = "page_entries s ?k"
  let ?f = "if act_type a = ''CHANGE_ANIMATION_DURATION'' then (\<lambda>e. e\<lparr>duration := act_duration a\<rparr>)
           else if act_type a = ''CHANGE_ANIMATION_DELAY'' then (\<lambda>e. e\<lparr>delay := act_delay a\<rparr>)
           else if act_type a = ''PLAY_ANIMATION'' then (\<lambda>e. e\<lparr>status := Some playing\<rparr>)
           else (\<lambda>e. e\<lparr>status := Some stopped\<rparr>)"
  let ?s' = "with_page s ?k (assign_at ?es (entryIndex ?es (act_item a)) ?f)"
  have found: "entryIndex ?es (act_item a) \<noteq> -1"
    using assms(2) by (rule assign_at_first(1))
  have lk: "pageAnimationOrder_lookup s ?k = Some ?es"
    using assms(2) by (rule pageAnimationOrder_lookup_entry)
  have ret: "animations isValid s a = Return_Object ?s'"
    using assms(1) found lk
    by (auto simp: animations_CHANGE_ANIMATION_DURATION animations_CHANGE_ANIMATION_DELAY
        animations_PLAY_ANIMATION animations_STOP_ANIMATION
        case_CHANGE_ANIMATION_DURATION_def case_CHANGE_ANIMATION_DELAY_def
        case_PLAY_ANIMATION_def case_STOP_ANIMATION_def)
  from targeted_write[OF assms(2), of ?f]
  obtain i where i: "i < length ?es" "entry_id (?es ! i) = act_item a"
      "\<forall>j<i. entry_id (?es ! j) \<noteq> act_item a"
      "length (page_entries ?s' ?k) = length ?es"
      "\<forall>j<length ?es. j \<noteq> i \<longrightarrow> page_entries ?s' ?k ! j = ?es ! j"
      "page_entries ?s' ?k ! i = ?f (?es ! i)"
    by blast
  have other: "\<forall>k. k \<noteq> ?k \<longrightarrow> animationOrder_copy ?s' k = animationOrder_copy s k"
    by (simp add: animationOrder_copy_with_page)
  have more: "animations_state.more ?s' = animations_state.more s"
    by (rule more_with_page)
  have fields: "entry_id (?f e) = entry_id e \<and> parent (?f e) = parent e" for e
    by simp
  have at_i: "page_entries ?s' ?k ! i =
          (if act_type a = ''CHANGE_ANIMATION_DURATION'' then (?es ! i)\<lparr>duration := act_duration a\<rparr>
           else if act_type a = ''CHANGE_ANIMATION_DELAY'' then (?es ! i)\<lparr>delay := act_delay a\<rparr>
           else if act_type a = ''PLAY_ANIMATION'' then (?es ! i)\<lparr>status := Some playing\<rparr>
           else (?es ! i)\<lparr>status := Some stopped\<rparr>)"
    unfolding i(6) by simp
  show ?thesis
    apply (rule exI[of _ ?s'])
    apply (rule exI[of _ i])
    unfolding Let_def
    using ret i(1-5) at_i other more fields[of "?es ! i"] i(6) by simp
qed

text \<open>
  Setting the duration of \<open>b\<close> on the chain \<open>a \<leftarrow> b \<leftarrow> c\<close>.
\<close>

theorem targeted_change_frame_witness:
  "(act_type ((new_action ''CHANGE_ANIMATION_DURATION'')\<lparr>act_page := Some ''page'',
        act_item := Some ''b'', act_duration := Some 500\<rparr>)
      \<in> {''CHANGE_ANIMATION_DURATION'', ''CHANGE_ANIMATION_DELAY''})
   \<and> act_item ((new_action ''CHANGE_ANIMATION_DURATION'')\<lparr>act_page := Some ''page'',
        act_item := Some ''b'', act_duration := Some 500\<rparr>)
      \<in> entry_id ` set (page_entries example_state ''page'')
   \<and> (\<exists>s' i. animations isValidAnimationPredecessor example_state
          ((new_action ''CHANGE_ANIMATION_DURATION'')\<lparr>act_page := Some ''page'',
             act_item := Some ''b'', act_duration := Some 500\<rparr>) = Return_Object s'
        \<and> i < 3 \<and> entry_id (example_entries ! i) = Some ''b''
        \<and> length (page_entries s' ''page'') = 3
        \<and> page_entries s' ''page'' ! i = (example_entries ! i)\<lparr>duration := Some 500\<rparr>
        \<and> (\<forall>j<3. j \<noteq> i \<longrightarrow> page_entries s' ''page'' ! j = example_entries ! j))"
proof -
  let ?a = "(new_action ''CHANGE_ANIMATION_DURATION'')\<lparr>act_page := Some ''page'',
        act_item := Some ''b'', act_duration := Some 500\<rparr>"
  have h1: "act_type ?a \<in> {''CHANGE_ANIMATION_DURATION'', ''CHANGE_ANIMATION_DELAY''}"
    by (simp add: new_action_def)
  then have h1': "act_type ?a \<in> {''CHANGE_ANIMATION_DURATION'', ''CHANGE_ANIMATION_DELAY''}
           \<or> act_type ?a \<in> {''PLAY_ANIMATION'', ''STOP_ANIMATION''} \<and> truthy (act_item ?a)"
    by (rule disjI1)
  have k: "property_key (act_page ?a) = ''page''" by (simp add: new_action_def)
  have h2: "act_item ?a \<in> entry_id ` set (page_entries example_state ''page'')"
    by (simp add: new_action_def page_entries_example example_entries_def new_entry_def)
  then have h2': "act_item ?a \<in> entry_id ` set (page_entries example_state (property_key (act_page ?a)))"
    by (simp only: k)
  have len: "length example_entries = 3" by (simp add: example_entries_def)
  from targeted_change_frame[OF h1' h2', of isValidAnimationPredecessor]
  show ?thesis
    using h1 h2 unfolding Let_def k page_entries_example len
    by (simp add: new_action_def) blast
qed

subsection \<open>Broadcast play and stop\<close>

text \<open>
  C2. For a page that is an own key of the state's animation order or is not a key
  inherited from \<^verbatim>\<open>Object.prototype\<close>: \<^verbatim>\<open>PLAY_ANIMATION\<close> with no item (or a falsy one)
  gives every entry of the page the status \<open>playing\<close> when it has no parent and
  \<open>prepared\<close> when it has one; \<^verbatim>\<open>STOP_ANIMATION\<close> with no item gives every entry the
  status \<open>stopped\<close>, whatever its parent. Nothing else of an entry changes, and the
  number of entries is the same.
\<close>

theorem broadcast_play_and_stop:
  assumes "\<not> truthy (act_item a)"
    and "animationOrder_copy s (property_key (act_page a)) \<noteq> None
        \<or> property_key (act_page a) \<notin> set Object_prototype_keys"
  shows "(act_type a = ''PLAY_ANIMATION'' \<longrightarrow>
           (\<exists>s'. animations isValid s a = Return_Object s' \<and>
              (let es = page_entries s (property_key (act_page a));
                   es' = page_entries s' (property_key (act_page a))
               in length es' = length es \<and>
                  (\<forall>i<length es. es' ! i =
                     (es ! i)\<lparr>status := Some (if parent (es ! i) = None then playing else prepared)\<rparr>))))
       \<and> (act_type a = ''STOP_ANIMATION'' \<longrightarrow>
           (\<exists>s'. animations isValid s a = Return_Object s' \<and>
              (let es = page_entries s (property_key (act_page a));
                   es' = page_entries s' (property_key (act_page a))
               in length es' = length es \<and>
                  (\<forall>i<length es. es' ! i = (es ! i)\<lparr>status := Some stopped\<rparr>))))"
proof -
  have lk: "pageAnimationOrder_lookup s (property_key (act_page a)) =
      Some (page_entries s (property_key (act_page a)))"
    using assms(2) by (rule pageAnimationOrder_lookup_array)
  show ?thesis
    using assms(1) lk
    by (simp add: animations_PLAY_ANIMATION animations_STOP_ANIMATION case_PLAY_ANIMATION_def
        case_STOP_ANIMATION_def page_entries_with_page Let_def)
qed

text \<open>
  Both broadcasts on the chain \<open>a \<leftarrow> b \<leftarrow> c\<close>: \<open>a\<close> plays, \<open>b\<close> and \<open>c\<close> are prepared;
  all three stop.
\<close>

theorem broadcast_play_and_stop_witness:
  "\<not> truthy (act_item ((new_action ''PLAY_ANIMATION'')\<lparr>act_page := Some ''page''\<rparr>))
   \<and> animationOrder_copy example_state ''page'' \<noteq> None
   \<and> act_type ((new_action ''PLAY_ANIMATION'')\<lparr>act_page := Some ''page''\<rparr>) = ''PLAY_ANIMATION''
   \<and> (\<exists>s'. animations isValidAnimationPredecessor example_state
          ((new_action ''PLAY_ANIMATION'')\<lparr>act_page := Some ''page''\<rparr>) = Return_Object s'
        \<and> length (page_entries s' ''page'') = 3
        \<and> page_entries s' ''page'' ! 0 = (new_entry ''a'' None)\<lparr>status := Some playing\<rparr>
        \<and> page_entries s' ''page'' ! 1 = (new_entry ''b'' (Some ''a''))\<lparr>status := Some prepared\<rparr>
        \<and> page_entries s' ''page'' ! 2 = (new_entry ''c'' (Some ''b''))\<lparr>status := Some prepared\<rparr>)
   \<and> \<not> truthy (act_item ((new_action ''STOP_ANIMATION'')\<lparr>act_page := Some ''page''\<rparr>))
   \<and> act_type ((new_action ''STOP_ANIMATION'')\<lparr>act_page := Some ''page''\<rparr>) = ''STOP_ANIMATION''
   \<and> (\<exists>s'. animations isValidAnimationPredecessor example_state
          ((new_action ''STOP_ANIMATION'')\<lparr>act_page := Some ''page''\<rparr>) = Return_Object s'
        \<and> length (page_entries s' ''page'') = 3
        \<and> page_entries s' ''page'' ! 0 = (new_entry ''a'' None)\<lparr>status := Some stopped\<rparr>
        \<and> page_entries s' ''page'' ! 1 = (new_entry ''b'' (Some ''a''))\<lparr>status := Some stopped\<rparr>
        \<and> page_entries s' ''page'' ! 2 = (new_entry ''c'' (Some ''b''))\<lparr>status := Some stopped\<rparr>)"
proof -
  let ?p = "(new_action ''PLAY_ANIMATION'')\<lparr>act_page := Some ''page''\<rparr>"
  let ?s = "(new_action ''STOP_ANIMATION'')\<lparr>act_page := Some ''page''\<rparr>"
  have hp: "\<not> truthy (act_item ?p)" "act_type ?p = ''PLAY_ANIMATION''"
    by (simp_all add: new_action_def)
  have hs: "\<not> truthy (act_item ?s)" "act_type ?s = ''STOP_ANIMATION''"
    by (simp_all add: new_action_def)
  have kp: "property_key (act_page ?p) = ''page''" by (simp add: new_action_def)
  have ks: "property_key (act_page ?s) = ''page''" by (simp add: new_action_def)
  note own = own_key_example
  have op: "animationOrder_copy example_state (property_key (act_page ?p)) \<noteq> None
        \<or> property_key (act_page ?p) \<notin> set Object_prototype_keys"
    unfolding kp using own by (rule disjI1)
  have os: "animationOrder_copy example_state (property_key (act_page ?s)) \<noteq> None
        \<or> property_key (act_page ?s) \<notin> set Object_prototype_keys"
    unfolding ks using own by (rule disjI1)
  have es: "length example_entries = 3" "example_entries ! 0 = new_entry ''a'' None"
    "example_entries ! 1 = new_entry ''b'' (Some ''a'')"
    "example_entries ! 2 = new_entry ''c'' (Some ''b'')"
    by (simp_all add: example_entries_def)
  have pa: "parent (new_entry ''a'' None) = None" "parent (new_entry ''b'' (Some ''a'')) \<noteq> None"
    "parent (new_entry ''c'' (Some ''b'')) \<noteq> None"
    by (simp_all add: new_entry_def)
  from broadcast_play_and_stop[OF hp(1) op, of isValidAnimationPredecessor] hp(2)
  obtain s1 where s1: "animations isValidAnimationPredecessor example_state ?p = Return_Object s1"
    "length (page_entries s1 ''page'') = 3"
    "\<forall>i<3. page_entries s1 ''page'' ! i =
       (example_entries ! i)\<lparr>status := Some (if parent (example_entries ! i) = None then playing else prepared)\<rparr>"
    unfolding Let_def kp page_entries_example es(1) by blast
  from broadcast_play_and_stop[OF hs(1) os, of isValidAnimationPredecessor] hs(2)
  obtain s2 where s2: "animations isValidAnimationPredecessor example_state ?s = Return_Object s2"
    "length (page_entries s2 ''page'') = 3"
    "\<forall>i<3. page_entries s2 ''page'' ! i = (example_entries ! i)\<lparr>status := Some stopped\<rparr>"
    unfolding Let_def ks page_entries_example es(1) by blast
  have p: "page_entries s1 ''page'' ! 0 = (new_entry ''a'' None)\<lparr>status := Some playing\<rparr>"
    "page_entries s1 ''page'' ! 1 = (new_entry ''b'' (Some ''a''))\<lparr>status := Some prepared\<rparr>"
    "page_entries s1 ''page'' ! 2 = (new_entry ''c'' (Some ''b''))\<lparr>status := Some prepared\<rparr>"
    using s1(3) es(2-4) pa by simp_all
  have q: "page_entries s2 ''page'' ! 0 = (new_entry ''a'' None)\<lparr>status := Some stopped\<rparr>"
    "page_entries s2 ''page'' ! 1 = (new_entry ''b'' (Some ''a''))\<lparr>status := Some stopped\<rparr>"
    "page_entries s2 ''page'' ! 2 = (new_entry ''c'' (Some ''b''))\<lparr>status := Some stopped\<rparr>"
    using s2(3) es(2-4) by simp_all
  show ?thesis
    using hp hs own s1(1,2) s2(1,2) p q by blast
qed

subsection \<open>Actions on an item that has no entry\<close>

text \<open>
  \<^verbatim>\<open>CHANGE_ANIMATION_TYPE\<close> for an item that has no entry is not ignored: the \<^verbatim>\<open>else\<close>
  branch of the case pushes a new entry. On the chain \<open>a \<leftarrow> b \<leftarrow> c\<close>, changing the type
  of \<open>d\<close> leaves four entries.
\<close>

theorem change_type_creates_entry_counterexample:
  "act_type ((new_action ''CHANGE_ANIMATION_TYPE'')\<lparr>act_page := Some ''page'', act_item := Some ''d'',
       act_animationType := Some ''fade-in''\<rparr>) = ''CHANGE_ANIMATION_TYPE''
   \<and> Some ''d'' \<notin> entry_id ` set (page_entries example_state ''page'')
   \<and> page_entries (state_after example_state (animations isValidAnimationPredecessor example_state
        ((new_action ''CHANGE_ANIMATION_TYPE'')\<lparr>act_page := Some ''page'', act_item := Some ''d'',
           act_animationType := Some ''fade-in''\<rparr>))) ''page''
      = page_entries example_state ''page'' @
          [\<lparr>entry_id = Some ''d'', parent = None, animationType = Some ''fade-in'',
            duration = None, delay = None, status = None\<rparr>]
   \<and> page_entries (state_after example_state (animations isValidAnimationPredecessor example_state
        ((new_action ''CHANGE_ANIMATION_TYPE'')\<lparr>act_page := Some ''page'', act_item := Some ''d'',
           act_animationType := Some ''fade-in''\<rparr>))) ''page''
      \<noteq> page_entries example_state ''page''"
  by (simp add: animations_CHANGE_ANIMATION_TYPE pageAnimationOrder_lookup_example new_action_def case_CHANGE_ANIMATION_TYPE_def
      page_entries_example example_entries_def new_entry_def entryIndex_absent
      page_entries_with_page)

text \<open>
  C7, as the code has it. Let the page be an own key of the state's animation order or
  not a key inherited from \<^verbatim>\<open>Object.prototype\<close>. When no entry of the page has the
  item's id, \<^verbatim>\<open>CHANGE_ANIMATION_DURATION\<close>, \<^verbatim>\<open>CHANGE_ANIMATION_DELAY\<close>, and
  \<^verbatim>\<open>PLAY_ANIMATION\<close> and \<^verbatim>\<open>STOP_ANIMATION\<close> with an item, leave the entries of every page
  as they are; and \<^verbatim>\<open>CHANGE_ANIMATION_TYPE\<close> appends one entry with the item's id, the
  action's animation type and no parent, leaving every other page as it is. So entries
  are created by \<^verbatim>\<open>ADD_ANIMATION\<close> and by \<^verbatim>\<open>CHANGE_ANIMATION_TYPE\<close>.
\<close>

theorem absent_item_is_ignored_or_created:
  assumes "act_item a \<notin> entry_id ` set (page_entries s (property_key (act_page a)))"
    and "animationOrder_copy s (property_key (act_page a)) \<noteq> None
        \<or> property_key (act_page a) \<notin> set Object_prototype_keys"
  shows "(act_type a \<in> {''CHANGE_ANIMATION_DURATION'', ''CHANGE_ANIMATION_DELAY''}
          \<or> act_type a \<in> {''PLAY_ANIMATION'', ''STOP_ANIMATION''} \<and> truthy (act_item a) \<longrightarrow>
           (\<exists>s'. animations isValid s a = Return_Object s' \<and>
              (\<forall>k. page_entries s' k = page_entries s k)))
       \<and> (act_type a = ''CHANGE_ANIMATION_TYPE'' \<longrightarrow>
           (\<exists>s'. animations isValid s a = Return_Object s' \<and>
              page_entries s' (property_key (act_page a)) =
                page_entries s (property_key (act_page a)) @
                  [\<lparr>entry_id = act_item a, parent = None, animationType = act_animationType a,
                    duration = None, delay = None, status = None\<rparr>] \<and>
              (\<forall>k. k \<noteq> property_key (act_page a) \<longrightarrow> page_entries s' k = page_entries s k)))"
proof -
  from assms(1) have absent: "entryIndex (page_entries s (property_key (act_page a))) (act_item a) = -1"
    by (simp add: entryIndex_absent)
  have lk: "pageAnimationOrder_lookup s (property_key (act_page a)) =
      Some (page_entries s (property_key (act_page a)))"
    using assms(2) by (rule pageAnimationOrder_lookup_array)
  show ?thesis
    using absent lk
    by (auto simp: animations_CHANGE_ANIMATION_DURATION animations_CHANGE_ANIMATION_DELAY
        animations_PLAY_ANIMATION animations_STOP_ANIMATION animations_CHANGE_ANIMATION_TYPE
        case_CHANGE_ANIMATION_DURATION_def case_CHANGE_ANIMATION_DELAY_def
        case_PLAY_ANIMATION_def case_STOP_ANIMATION_def case_CHANGE_ANIMATION_TYPE_def
        page_entries_with_page)
qed

text \<open>
  On the chain \<open>a \<leftarrow> b \<leftarrow> c\<close>: a delay for \<open>d\<close> changes nothing, a type for \<open>d\<close>
  appends its entry.
\<close>

theorem absent_item_is_ignored_or_created_witness:
  "animationOrder_copy example_state ''page'' \<noteq> None
   \<and> act_item ((new_action ''CHANGE_ANIMATION_DELAY'')\<lparr>act_page := Some ''page'',
        act_item := Some ''d'', act_delay := Some 200\<rparr>)
      \<notin> entry_id ` set (page_entries example_state ''page'')
   \<and> act_type ((new_action ''CHANGE_ANIMATION_DELAY'')\<lparr>act_page := Some ''page'',
        act_item := Some ''d'', act_delay := Some 200\<rparr>)
      \<in> {''CHANGE_ANIMATION_DURATION'', ''CHANGE_ANIMATION_DELAY''}
   \<and> (\<exists>s'. animations isValidAnimationPredecessor example_state
          ((new_action ''CHANGE_ANIMATION_DELAY'')\<lparr>act_page := Some ''page'',
             act_item := Some ''d'', act_delay := Some 200\<rparr>) = Return_Object s'
        \<and> page_entries s' ''page'' = example_entries)
   \<and> act_item ((new_action ''CHANGE_ANIMATION_TYPE'')\<lparr>act_page := Some ''page'',
        act_item := Some ''d'', act_animationType := Some ''fade-in''\<rparr>)
      \<notin> entry_id ` set (page_entries example_state ''page'')
   \<and> act_type ((new_action ''CHANGE_ANIMATION_TYPE'')\<lparr>act_page := Some ''page'',
        act_item := Some ''d'', act_animationType := Some ''fade-in''\<rparr>) = ''CHANGE_ANIMATION_TYPE''
   \<and> (\<exists>s'. animations isValidAnimationPredecessor example_state
          ((new_action ''CHANGE_ANIMATION_TYPE'')\<lparr>act_page := Some ''page'',
             act_item := Some ''d'', act_animationType := Some ''fade-in''\<rparr>) = Return_Object s'
        \<and> page_entries s' ''page'' = example_entries @
            [\<lparr>entry_id = Some ''d'', parent = None, animationType = Some ''fade-in'',
              duration = None, delay = None, status = None\<rparr>])"
proof -
  let ?d = "(new_action ''CHANGE_ANIMATION_DELAY'')\<lparr>act_page := Some ''page'',
        act_item := Some ''d'', act_delay := Some 200\<rparr>"
  let ?t = "(new_action ''CHANGE_ANIMATION_TYPE'')\<lparr>act_page := Some ''page'',
        act_item := Some ''d'', act_animationType := Some ''fade-in''\<rparr>"
  have kd: "property_key (act_page ?d) = ''page''" by (simp add: new_action_def)
  have kt: "property_key (act_page ?t) = ''page''" by (simp add: new_action_def)
  note own = own_key_example
  have od: "animationOrder_copy example_state ''page'' \<noteq> None
        \<or> ''page'' \<notin> set Object_prototype_keys"
    using own by (rule disjI1)
  note ot = od
  have hd: "act_item ?d \<notin> entry_id ` set (page_entries example_state ''page'')"
    by (simp add: new_action_def page_entries_example example_entries_def new_entry_def)
  have ht: "act_item ?t \<notin> entry_id ` set (page_entries example_state ''page'')"
    by (simp add: new_action_def page_entries_example example_entries_def new_entry_def)
  have td: "act_type ?d \<in> {''CHANGE_ANIMATION_DURATION'', ''CHANGE_ANIMATION_DELAY''}"
    by (simp add: new_action_def)
  have tt: "act_type ?t = ''CHANGE_ANIMATION_TYPE''" by (simp add: new_action_def)
  have f: "act_item ?t = Some ''d''" "act_animationType ?t = Some ''fade-in''"
    by (simp_all add: new_action_def)
  from absent_item_is_ignored_or_created[of ?d example_state isValidAnimationPredecessor] hd od td
  obtain s1 where s1: "animations isValidAnimationPredecessor example_state ?d = Return_Object s1"
    "\<forall>k. page_entries s1 k = page_entries example_state k"
    unfolding kd by blast
  from absent_item_is_ignored_or_created[of ?t example_state isValidAnimationPredecessor] ht ot tt
  obtain s2 where s2: "animations isValidAnimationPredecessor example_state ?t = Return_Object s2"
    "page_entries s2 ''page'' = page_entries example_state ''page'' @
        [\<lparr>entry_id = act_item ?t, parent = None, animationType = act_animationType ?t,
          duration = None, delay = None, status = None\<rparr>]"
    unfolding kt by blast
  have e1: "page_entries s1 ''page'' = example_entries"
    using s1(2) by (simp add: page_entries_example)
  have e2: "page_entries s2 ''page'' = example_entries @
            [\<lparr>entry_id = Some ''d'', parent = None, animationType = Some ''fade-in'',
              duration = None, delay = None, status = None\<rparr>]"
    using s2(2) unfolding f by (simp add: page_entries_example)
  show ?thesis using own hd td s1(1) e1 ht tt s2(1) e2 by blast
qed

subsection \<open>Entries are never removed\<close>

lemma map_entry_id_reparent_loop:
  "map entry_id (fst (reparent_loop es p keys)) = map entry_id es"
proof (induction keys arbitrary: es)
  case Nil
  show ?case by simp
next
  case (Cons k keys)
  show ?case
  proof (cases p)
    case None
    then show ?thesis using Cons.IH[of es] by simp
  next
    case (Some q)
    have "map entry_id (assign_at es (entryIndex es (Some k)) (\<lambda>e. e\<lparr>parent := None\<rparr>)) = map entry_id es"
      by (rule map_entry_id_assign_at) simp
    then show ?thesis
      using Some Cons.IH[of es]
        Cons.IH[of "assign_at es (entryIndex es (Some k)) (\<lambda>e. e\<lparr>parent := None\<rparr>)"]
      by simp
  qed
qed

lemma ids_case_ADD_ANIMATION:
  "\<exists>ys. map entry_id (case_ADD_ANIMATION v a es) = map entry_id es @ ys"
  by (simp add: case_ADD_ANIMATION_def Let_def map_entry_id_assign_at)

lemma ids_case_CHANGE_ANIMATION_TYPE:
  "\<exists>ys. map entry_id (fst (case_CHANGE_ANIMATION_TYPE a es)) = map entry_id es @ ys"
  by (simp add: case_CHANGE_ANIMATION_TYPE_def Let_def map_entry_id_reparent_loop
      map_entry_id_assign_at)

lemma ids_case_CHANGE_ANIMATION_DURATION:
  "map entry_id (case_CHANGE_ANIMATION_DURATION a es) = map entry_id es"
  by (simp add: case_CHANGE_ANIMATION_DURATION_def Let_def map_entry_id_assign_at)

lemma ids_case_CHANGE_ANIMATION_DELAY:
  "map entry_id (case_CHANGE_ANIMATION_DELAY a es) = map entry_id es"
  by (simp add: case_CHANGE_ANIMATION_DELAY_def Let_def map_entry_id_assign_at)

lemma ids_case_PLAY_ANIMATION:
  "map entry_id (case_PLAY_ANIMATION a es) = map entry_id es"
  by (simp add: case_PLAY_ANIMATION_def Let_def map_entry_id_assign_at comp_def)

lemma ids_case_STOP_ANIMATION:
  "map entry_id (case_STOP_ANIMATION a es) = map entry_id es"
  by (simp add: case_STOP_ANIMATION_def Let_def map_entry_id_assign_at comp_def)

text \<open>
  The state after an action, whether the reducer returned or threw: on the action's
  page the entries are those of some array \<open>es'\<close> whose ids extend the ids before, or
  the entries before; every other page is as it was. First for a lookup that gives the
  page's entries, then for every lookup.
\<close>

lemma state_after_animations_array:
  assumes lk: "pageAnimationOrder_lookup s (property_key (act_page a)) =
      Some (page_entries s (property_key (act_page a)))"
  shows
  "\<exists>es' ys. map entry_id es' = map entry_id (page_entries s (property_key (act_page a))) @ ys \<and>
     (\<forall>k. page_entries (state_after s (animations isValid s a)) k =
        (if k = property_key (act_page a) then es' else page_entries s k))"
proof -
  let ?k = "property_key (act_page a)"
  let ?es = "page_entries s ?k"
  have *: "\<exists>es' ys. map entry_id es' = map entry_id ?es @ ys \<and>
     (\<forall>k. page_entries (with_page s ?k es1) k = (if k = ?k then es' else page_entries s k))"
    if "\<exists>ys. map entry_id es1 = map entry_id ?es @ ys" for es1
    using that by (auto simp: page_entries_with_page)
  have same: "\<exists>es' ys. map entry_id es' = map entry_id ?es @ ys \<and>
     (\<forall>k. page_entries s k = (if k = ?k then es' else page_entries s k))"
    by (rule exI[of _ ?es]) simp
  consider (add) "act_type a = ''ADD_ANIMATION''"
    | (type) "act_type a = ''CHANGE_ANIMATION_TYPE''"
    | (duration) "act_type a = ''CHANGE_ANIMATION_DURATION''"
    | (delay) "act_type a = ''CHANGE_ANIMATION_DELAY''"
    | (play) "act_type a = ''PLAY_ANIMATION''"
    | (stop) "act_type a = ''STOP_ANIMATION''"
    | (other) "act_type a \<notin> {''ADD_ANIMATION'', ''CHANGE_ANIMATION_TYPE'',
        ''CHANGE_ANIMATION_DURATION'', ''CHANGE_ANIMATION_DELAY'', ''PLAY_ANIMATION'',
        ''STOP_ANIMATION''}"
    by blast
  then show ?thesis
  proof cases
    case add
    then show ?thesis
      using *[OF ids_case_ADD_ANIMATION] by (simp add: lk animations_ADD_ANIMATION)
  next
    case type
    obtain es1 e where c: "case_CHANGE_ANIMATION_TYPE a ?es = (es1, e)" by (cases "case_CHANGE_ANIMATION_TYPE a ?es")
    with ids_case_CHANGE_ANIMATION_TYPE[of a ?es]
    have ids: "\<exists>ys. map entry_id es1 = map entry_id ?es @ ys" by simp
    show ?thesis
    proof (cases e)
      case None
      then show ?thesis using type c *[OF ids] by (simp add: lk animations_CHANGE_ANIMATION_TYPE)
    next
      case (Some err)
      show ?thesis
      proof (cases "animationOrder_copy s ?k = None")
        case True
        then show ?thesis
          using type c Some same
          by (simp add: lk animations_CHANGE_ANIMATION_TYPE page_entries_written_in_place)
      next
        case False
        then have "written_in_place s ?k es1 = with_page s ?k es1"
          by (auto simp: written_in_place_def)
        then show ?thesis
          using type c Some *[OF ids] by (simp add: lk animations_CHANGE_ANIMATION_TYPE)
      qed
    qed
  next
    case duration
    then show ?thesis
      using *[of "case_CHANGE_ANIMATION_DURATION a ?es"]
      by (simp add: lk animations_CHANGE_ANIMATION_DURATION ids_case_CHANGE_ANIMATION_DURATION)
  next
    case delay
    then show ?thesis
      using *[of "case_CHANGE_ANIMATION_DELAY a ?es"]
      by (simp add: lk animations_CHANGE_ANIMATION_DELAY ids_case_CHANGE_ANIMATION_DELAY)
  next
    case play
    then show ?thesis
      using *[of "case_PLAY_ANIMATION a ?es"]
      by (simp add: lk animations_PLAY_ANIMATION ids_case_PLAY_ANIMATION)
  next
    case stop
    then show ?thesis
      using *[of "case_STOP_ANIMATION a ?es"]
      by (simp add: lk animations_STOP_ANIMATION ids_case_STOP_ANIMATION)
  next
    case other
    then have "animations isValid s a = Return_State" by (rule animations_default)
    then show ?thesis using same by simp
  qed
qed

lemma state_after_animations:
  "\<exists>es' ys. map entry_id es' = map entry_id (page_entries s (property_key (act_page a))) @ ys \<and>
     (\<forall>k. page_entries (state_after s (animations isValid s a)) k =
        (if k = property_key (act_page a) then es' else page_entries s k))"
proof (cases rule: pageAnimationOrder_lookup_cases[of s "property_key (act_page a)"])
  case inherited
  then have "state_after s (animations isValid s a) = s" by (intro animations_no_array)
  then show ?thesis
    by (intro exI[of _ "page_entries s (property_key (act_page a))"] exI[of _ "[]"]) simp
next
  case array
  then show ?thesis by (rule state_after_animations_array)
qed

text \<open>
  C8. No action removes an entry: on every page, every id that an entry has before
  the action is the id of an entry after it, whether the reducer returns or throws.
\<close>

theorem entries_are_never_removed:
  "entry_id ` set (page_entries s k)
     \<subseteq> entry_id ` set (page_entries (state_after s (animations isValid s a)) k)"
proof -
  from state_after_animations[of s a isValid]
  obtain es' ys where ids: "map entry_id es' = map entry_id (page_entries s (property_key (act_page a))) @ ys"
    and pages: "\<forall>k. page_entries (state_after s (animations isValid s a)) k =
        (if k = property_key (act_page a) then es' else page_entries s k)"
    by blast
  have "set (map entry_id (page_entries s (property_key (act_page a)))) \<subseteq> set (map entry_id es')"
    unfolding ids by simp
  then have "entry_id ` set (page_entries s (property_key (act_page a))) \<subseteq> entry_id ` set es'"
    by simp
  then show ?thesis using pages by simp
qed

text \<open>
  The entry \<open>c\<close> of the chain \<open>a \<leftarrow> b \<leftarrow> c\<close> is still there after its animation is
  disabled.
\<close>

theorem entries_are_never_removed_witness:
  "Some ''c'' \<in> entry_id ` set (page_entries example_state ''page'')
   \<and> Some ''c'' \<in> entry_id ` set (page_entries (state_after example_state
        (animations isValidAnimationPredecessor example_state
          ((new_action ''CHANGE_ANIMATION_TYPE'')\<lparr>act_page := Some ''page'',
             act_item := Some ''c''\<rparr>))) ''page'')"
proof -
  have m: "Some ''c'' \<in> entry_id ` set (page_entries example_state ''page'')"
    by (simp add: page_entries_example example_entries_def new_entry_def)
  with entries_are_never_removed[of example_state "''page''" isValidAnimationPredecessor
      "(new_action ''CHANGE_ANIMATION_TYPE'')\<lparr>act_page := Some ''page'', act_item := Some ''c''\<rparr>"]
  show ?thesis by blast
qed

subsection \<open>Disabling an animation\<close>

lemma index_string_0: "index_string 0 = ''0''"
  by code_simp

lemma array_keys_singleton: "array_keys [x] = [''0'']"
  by (simp add: array_keys_def index_string_0)

text \<open>
  C1. What the code does where the claim asks for re-parenting. On the chain
  \<open>a \<leftarrow> b \<leftarrow> c\<close>, each entry animated, disabling the animation of \<open>b\<close> returns a state
  in which \<open>b\<close> has lost its animation type and \<open>c\<close> still has the parent \<open>b\<close>, not \<open>a\<close>.
  The loop variable of \<^verbatim>\<open>for ( const successor in itemSuccessors )\<close> is the key \<^verbatim>\<open>'0'\<close>,
  no entry has that id, and nothing is written.
\<close>

theorem disabling_leaves_successors:
  "map (\<lambda>e. (entry_id e, parent e, animationType e))
     (page_entries animated_state ''page'')
   = [(Some ''a'', None, Some ''fade-in''), (Some ''b'', Some ''a'', Some ''fade-in''),
      (Some ''c'', Some ''b'', Some ''fade-in'')]
   \<and> (case animations isValidAnimationPredecessor animated_state
            ((new_action ''CHANGE_ANIMATION_TYPE'')\<lparr>act_page := Some ''page'', act_item := Some ''b''\<rparr>) of
         Return_Object s' \<Rightarrow>
           map (\<lambda>e. (entry_id e, parent e, animationType e)) (page_entries s' ''page'')
           = [(Some ''a'', None, Some ''fade-in''), (Some ''b'', Some ''a'', None),
              (Some ''c'', Some ''b'', Some ''fade-in'')]
       | Return_State \<Rightarrow> False
       | Throw e s' \<Rightarrow> False)"
  by (simp add: animations_CHANGE_ANIMATION_TYPE pageAnimationOrder_lookup_animated new_action_def page_entries_animated
      animated_entries_def example_entries_def new_entry_def case_CHANGE_ANIMATION_TYPE_def Let_def
      entryIndex_def findIndex_def assign_at_def array_keys_singleton page_entries_with_page)

text \<open>
  Where an entry does have a key of the loop as its id, the loop writes
  \<^verbatim>\<open>itemPredecessor.parent\<close>: to that entry, which gets no parent when the item has a
  parent, and a TypeError is thrown when the item has none.
\<close>

lemma disabling_reparents_entry_named_0:
  "page_entries (state_after
      \<lparr>animationOrder = Some [''page'' \<mapsto>
         [new_entry ''a'' None, new_entry ''b'' (Some ''a''), new_entry ''0'' (Some ''b'')]]\<rparr>
      (animations isValidAnimationPredecessor
        \<lparr>animationOrder = Some [''page'' \<mapsto>
           [new_entry ''a'' None, new_entry ''b'' (Some ''a''), new_entry ''0'' (Some ''b'')]]\<rparr>
        ((new_action ''CHANGE_ANIMATION_TYPE'')\<lparr>act_page := Some ''page'', act_item := Some ''b''\<rparr>)))
      ''page''
   = [new_entry ''a'' None, new_entry ''b'' (Some ''a''), new_entry ''0'' None]"
  by (simp add: animations_CHANGE_ANIMATION_TYPE pageAnimationOrder_lookup_def new_action_def page_entries_def
      animationOrder_copy_def with_page_def
      new_entry_def case_CHANGE_ANIMATION_TYPE_def Let_def
      entryIndex_def findIndex_def assign_at_def array_keys_singleton)

lemma disabling_root_throws:
  "animations isValidAnimationPredecessor
     \<lparr>animationOrder = Some [''page'' \<mapsto> [new_entry ''a'' None, new_entry ''0'' (Some ''a'')]]\<rparr>
     ((new_action ''CHANGE_ANIMATION_TYPE'')\<lparr>act_page := Some ''page'', act_item := Some ''a''\<rparr>)
   = Throw TypeError
       \<lparr>animationOrder = Some [''page'' \<mapsto> [new_entry ''a'' None, new_entry ''0'' (Some ''a'')]]\<rparr>"
  by (simp add: animations_CHANGE_ANIMATION_TYPE pageAnimationOrder_lookup_def new_action_def page_entries_def
      animationOrder_copy_def with_page_def written_in_place_def
      new_entry_def case_CHANGE_ANIMATION_TYPE_def Let_def
      entryIndex_def findIndex_def assign_at_def array_keys_singleton)

text \<open>
  In general, disabling the animation of an item that has an entry never gives an
  entry a new parent: after the action, whether the reducer returned or threw, the page
  has as many entries as before, and the parent of each is the one it had or
  \<^verbatim>\<open>undefined\<close>. When no entry has a key of the loop as its id, the loop writes nothing.
\<close>

lemma reparent_loop_no_key_is_an_id:
  "\<forall>k\<in>set keys. Some k \<notin> entry_id ` set es \<Longrightarrow> reparent_loop es p keys = (es, None)"
  by (induction keys) (simp_all add: entryIndex_absent)

lemma reparent_loop_writes_no_parent:
  "length (fst (reparent_loop es p keys)) = length es \<and>
   (\<forall>i<length es. fst (reparent_loop es p keys) ! i = es ! i
      \<or> fst (reparent_loop es p keys) ! i = (es ! i)\<lparr>parent := None\<rparr>)"
proof (induction keys arbitrary: es)
  case Nil
  show ?case by simp
next
  case (Cons k keys)
  let ?es1 = "assign_at es (entryIndex es (Some k)) (\<lambda>e. e\<lparr>parent := None\<rparr>)"
  have len1: "length ?es1 = length es" by (rule length_assign_at)
  have step: "\<forall>i<length es. ?es1 ! i = es ! i \<or> ?es1 ! i = (es ! i)\<lparr>parent := None\<rparr>"
    by (simp add: nth_assign_at)
  show ?case
  proof (cases "entryIndex es (Some k) \<noteq> -1 \<and> p \<noteq> None")
    case True
    then obtain q where q: "p = Some q" by auto
    with True have eq: "reparent_loop es p (k # keys) = reparent_loop ?es1 p keys" by simp
    have "\<forall>i<length es. fst (reparent_loop ?es1 p keys) ! i = es ! i
        \<or> fst (reparent_loop ?es1 p keys) ! i = (es ! i)\<lparr>parent := None\<rparr>"
    proof (intro allI impI)
      fix i assume i: "i < length es"
      from Cons.IH[of ?es1] i len1
      have "fst (reparent_loop ?es1 p keys) ! i = ?es1 ! i
        \<or> fst (reparent_loop ?es1 p keys) ! i = (?es1 ! i)\<lparr>parent := None\<rparr>"
        by simp
      moreover from step i
      have "?es1 ! i = es ! i \<or> ?es1 ! i = (es ! i)\<lparr>parent := None\<rparr>" by simp
      ultimately show "fst (reparent_loop ?es1 p keys) ! i = es ! i
        \<or> fst (reparent_loop ?es1 p keys) ! i = (es ! i)\<lparr>parent := None\<rparr>"
        by auto
    qed
    then show ?thesis unfolding eq using Cons.IH[of ?es1] len1 by simp
  next
    case False
    then consider "entryIndex es (Some k) = -1" | "entryIndex es (Some k) \<noteq> -1" "p = None"
      by blast
    then show ?thesis
    proof cases
      case 1
      then show ?thesis using Cons.IH[of es] by simp
    next
      case 2
      then show ?thesis by simp
    qed
  qed
qed

lemma disabling_keeps_or_erases_parents:
  assumes "act_type a = ''CHANGE_ANIMATION_TYPE''" and "\<not> truthy (act_animationType a)"
    and "act_item a \<in> entry_id ` set (page_entries s (property_key (act_page a)))"
  shows "length (page_entries (state_after s (animations isValid s a)) (property_key (act_page a)))
      = length (page_entries s (property_key (act_page a)))
    \<and> (\<forall>i<length (page_entries s (property_key (act_page a))).
         parent (page_entries (state_after s (animations isValid s a)) (property_key (act_page a)) ! i)
           = parent (page_entries s (property_key (act_page a)) ! i)
         \<or> parent (page_entries (state_after s (animations isValid s a)) (property_key (act_page a)) ! i)
           = None)"
proof -
  define k where "k = property_key (act_page a)"
  define es where "es = page_entries s k"
  define es1 where "es1 = assign_at es (entryIndex es (act_item a))
      (\<lambda>e. e\<lparr>animationType := act_animationType a\<rparr>)"
  define r where "r = reparent_loop es1 (parent (es1 ! nat (entryIndex es1 (act_item a))))
      (array_keys (filter (\<lambda>e. parent e = act_item a) es1))"
  have found: "entryIndex es (act_item a) \<noteq> -1"
    using assms(3) by (simp add: entryIndex_absent es_def k_def)
  have c: "case_CHANGE_ANIMATION_TYPE a es = r"
    using found assms(2) by (simp add: case_CHANGE_ANIMATION_TYPE_def Let_def r_def es1_def)
  from assms(3) have "es \<noteq> []" by (auto simp: es_def k_def)
  then have key: "animationOrder_copy s k \<noteq> None"
    unfolding es_def by (rule page_entries_nonempty_key)
  have lk: "pageAnimationOrder_lookup s (property_key (act_page a)) =
      Some (page_entries s (property_key (act_page a)))"
    using assms(3) by (rule pageAnimationOrder_lookup_entry)
  obtain es2 e where r: "r = (es2, e)" by (cases r)
  have after: "page_entries (state_after s (animations isValid s a)) k = es2"
  proof (cases e)
    case None
    then show ?thesis
      using assms(1) c r
      by (simp add: lk animations_CHANGE_ANIMATION_TYPE page_entries_with_page k_def es_def)
  next
    case (Some err)
    then show ?thesis
      using assms(1) c r key
      by (simp add: lk animations_CHANGE_ANIMATION_TYPE page_entries_written_in_place k_def es_def)
  qed
  have len1: "length es1 = length es" unfolding es1_def by (rule length_assign_at)
  have par1: "\<forall>i<length es. parent (es1 ! i) = parent (es ! i)"
    by (simp add: es1_def nth_assign_at)
  have loop: "length es2 = length es1 \<and>
     (\<forall>i<length es1. es2 ! i = es1 ! i \<or> es2 ! i = (es1 ! i)\<lparr>parent := None\<rparr>)"
    using reparent_loop_writes_no_parent[of es1 "parent (es1 ! nat (entryIndex es1 (act_item a)))"
        "array_keys (filter (\<lambda>e. parent e = act_item a) es1)"] r
    by (simp add: r_def)
  have "\<forall>i<length es. parent (es2 ! i) = parent (es ! i) \<or> parent (es2 ! i) = None"
  proof (intro allI impI)
    fix i assume i: "i < length es"
    with loop len1 have "es2 ! i = es1 ! i \<or> es2 ! i = (es1 ! i)\<lparr>parent := None\<rparr>"
      by simp
    then show "parent (es2 ! i) = parent (es ! i) \<or> parent (es2 ! i) = None"
      using par1 i by auto
  qed
  then have "length es2 = length es \<and>
      (\<forall>i<length es. parent (es2 ! i) = parent (es ! i) \<or> parent (es2 ! i) = None)"
    using loop len1 by simp
  then show ?thesis
    using after by (simp add: k_def es_def)
qed

text \<open>
  Disabling \<open>b\<close> on the animated chain: three entries, and the parent of \<open>c\<close> is \<open>b\<close> or
  none.
\<close>

theorem disabling_keeps_or_erases_parents_witness:
  "act_type ((new_action ''CHANGE_ANIMATION_TYPE'')\<lparr>act_page := Some ''page'', act_item := Some ''b''\<rparr>)
     = ''CHANGE_ANIMATION_TYPE''
   \<and> \<not> truthy (act_animationType
         ((new_action ''CHANGE_ANIMATION_TYPE'')\<lparr>act_page := Some ''page'', act_item := Some ''b''\<rparr>))
   \<and> Some ''b'' \<in> entry_id ` set (page_entries animated_state ''page'')
   \<and> length (page_entries (state_after animated_state (animations isValidAnimationPredecessor
         animated_state
         ((new_action ''CHANGE_ANIMATION_TYPE'')\<lparr>act_page := Some ''page'', act_item := Some ''b''\<rparr>)))
         ''page'') = 3
   \<and> (parent (page_entries (state_after animated_state (animations isValidAnimationPredecessor
         animated_state
         ((new_action ''CHANGE_ANIMATION_TYPE'')\<lparr>act_page := Some ''page'', act_item := Some ''b''\<rparr>)))
         ''page'' ! 2) = Some ''b''
      \<or> parent (page_entries (state_after animated_state (animations isValidAnimationPredecessor
         animated_state
         ((new_action ''CHANGE_ANIMATION_TYPE'')\<lparr>act_page := Some ''page'', act_item := Some ''b''\<rparr>)))
         ''page'' ! 2) = None)"
proof -
  let ?a = "(new_action ''CHANGE_ANIMATION_TYPE'')\<lparr>act_page := Some ''page'', act_item := Some ''b''\<rparr>"
  have h1: "act_type ?a = ''CHANGE_ANIMATION_TYPE''" by (simp add: new_action_def)
  have h2: "\<not> truthy (act_animationType ?a)" by (simp add: new_action_def)
  have k: "property_key (act_page ?a) = ''page''" by (simp add: new_action_def)
  have i: "act_item ?a = Some ''b''" by (simp add: new_action_def)
  have es: "length animated_entries = 3" "parent (animated_entries ! 2) = Some ''b''"
    by (simp_all add: animated_entries_def example_entries_def new_entry_def)
  have h3: "Some ''b'' \<in> entry_id ` set (page_entries animated_state ''page'')"
    by (simp add: page_entries_animated animated_entries_def example_entries_def new_entry_def)
  then have h3': "act_item ?a \<in> entry_id ` set (page_entries animated_state (property_key (act_page ?a)))"
    by (simp only: k i)
  let ?es' = "page_entries (state_after animated_state
      (animations isValidAnimationPredecessor animated_state ?a)) ''page''"
  note inst = disabling_keeps_or_erases_parents[OF h1 h2 h3', of isValidAnimationPredecessor,
      unfolded k page_entries_animated es(1)]
  have l: "length ?es' = 3"
    and p: "\<forall>i<3. parent (?es' ! i) = parent (animated_entries ! i) \<or> parent (?es' ! i) = None"
    using inst by (rule conjunct1, rule conjunct2)
  from p have "parent (?es' ! 2) = parent (animated_entries ! 2) \<or> parent (?es' ! 2) = None"
    by simp
  then have "parent (?es' ! 2) = Some ''b'' \<or> parent (?es' ! 2) = None"
    unfolding es(2) .
  then show ?thesis using h1 h2 h3 l by (intro conjI)
qed

subsection \<open>Predecessors stay valid\<close>

lemma predecessors_valid_iff:
  "predecessors_valid es =
     (\<forall>i<length es. \<forall>p. parent (es ! i) = Some p \<longrightarrow>
        Some p \<noteq> entry_id (es ! i) \<and> Some p \<in> set (map entry_id es))"
  by (auto simp: predecessors_valid_def list_all_length split: option.splits)

lemma predecessors_valid_set:
  "predecessors_valid es =
     (\<forall>e\<in>set es. \<forall>p. parent e = Some p \<longrightarrow>
        Some p \<noteq> entry_id e \<and> Some p \<in> entry_id ` set es)"
  by (auto simp: predecessors_valid_def list_all_iff split: option.splits)

text \<open>
  A write that keeps every id, and gives each entry the parent it had, no parent, or a
  parent that is valid, keeps the invariant.
\<close>

lemma predecessors_valid_rewrite:
  assumes "predecessors_valid es" and "map entry_id es' = map entry_id es"
    and "\<forall>i<length es. parent (es' ! i) = parent (es ! i) \<or> parent (es' ! i) = None \<or>
           (parent (es' ! i) \<noteq> entry_id (es ! i) \<and> parent (es' ! i) \<in> set (map entry_id es))"
  shows "predecessors_valid es'"
proof -
  have len: "length es' = length es" using assms(2) by (rule map_eq_imp_length_eq)
  have ids: "entry_id (es' ! i) = entry_id (es ! i)" if "i < length es" for i
    using that len nth_map[of i es' entry_id] nth_map[of i es entry_id] assms(2) by simp
  show ?thesis
    unfolding predecessors_valid_iff assms(2)
  proof (intro allI impI)
    fix i p
    assume i: "i < length es'" and p: "parent (es' ! i) = Some p"
    from i len have i': "i < length es" by simp
    from assms(3) i' have "parent (es' ! i) = parent (es ! i) \<or> parent (es' ! i) = None \<or>
           (parent (es' ! i) \<noteq> entry_id (es ! i) \<and> parent (es' ! i) \<in> set (map entry_id es))"
      by blast
    then consider "parent (es ! i) = Some p"
      | "Some p \<noteq> entry_id (es ! i) \<and> Some p \<in> set (map entry_id es)"
      unfolding p by fastforce
    then show "Some p \<noteq> entry_id (es' ! i) \<and> Some p \<in> set (map entry_id es)"
    proof cases
      case 1
      with assms(1) i' show ?thesis unfolding predecessors_valid_iff using ids[OF i'] by simp
    next
      case 2
      then show ?thesis using ids[OF i'] by simp
    qed
  qed
qed

lemma predecessors_valid_append:
  assumes "predecessors_valid es"
    and "parent e = None \<or> (parent e \<noteq> entry_id e \<and> parent e \<in> set (map entry_id es))"
  shows "predecessors_valid (es @ [e])"
  unfolding predecessors_valid_set
proof (intro ballI allI impI)
  fix x p assume x: "x \<in> set (es @ [e])" and p: "parent x = Some p"
  show "Some p \<noteq> entry_id x \<and> Some p \<in> entry_id ` set (es @ [e])"
  proof (cases "x \<in> set es")
    case True
    with assms(1) p have "Some p \<noteq> entry_id x \<and> Some p \<in> entry_id ` set es"
      unfolding predecessors_valid_set by blast
    then show ?thesis by auto
  next
    case False
    with x have "x = e" by simp
    with assms(2) p show ?thesis by auto
  qed
qed

lemma predecessors_valid_assign_at:
  assumes "predecessors_valid es"
    and "\<And>e. entry_id (f e) = entry_id e"
    and "\<And>e. parent (f e) = parent e \<or> parent (f e) = None \<or>
           (nat k < length es \<and> parent (f e) \<noteq> entry_id (es ! nat k) \<and> parent (f e) \<in> set (map entry_id es))"
  shows "predecessors_valid (assign_at es k f)"
proof (rule predecessors_valid_rewrite[OF assms(1)])
  show "map entry_id (assign_at es k f) = map entry_id es"
    using assms(2) by (rule map_entry_id_assign_at)
  show "\<forall>i<length es. parent (assign_at es k f ! i) = parent (es ! i) \<or>
      parent (assign_at es k f ! i) = None \<or>
      (parent (assign_at es k f ! i) \<noteq> entry_id (es ! i) \<and>
       parent (assign_at es k f ! i) \<in> set (map entry_id es))"
  proof (intro allI impI)
    fix i assume i: "i < length es"
    show "parent (assign_at es k f ! i) = parent (es ! i) \<or>
      parent (assign_at es k f ! i) = None \<or>
      (parent (assign_at es k f ! i) \<noteq> entry_id (es ! i) \<and>
       parent (assign_at es k f ! i) \<in> set (map entry_id es))"
    proof (cases "i = nat k")
      case True
      then show ?thesis using assms(3)[of "es ! i"] i by (auto simp: nth_assign_at)
    next
      case False
      then show ?thesis using i by (simp add: nth_assign_at)
    qed
  qed
qed

lemma predecessors_valid_reparent_loop:
  "predecessors_valid es \<Longrightarrow> predecessors_valid (fst (reparent_loop es p keys))"
proof (induction keys arbitrary: es)
  case Nil
  then show ?case by simp
next
  case (Cons k keys)
  have step: "predecessors_valid (assign_at es (entryIndex es (Some k)) (\<lambda>e. e\<lparr>parent := None\<rparr>))"
    by (rule predecessors_valid_assign_at[OF Cons.prems]) simp_all
  show ?case
    using Cons.IH[OF Cons.prems] Cons.IH[OF step] Cons.prems
    by (cases p) simp_all
qed

lemma predecessors_valid_case_ADD_ANIMATION:
  assumes "predecessors_valid es"
    and "v \<longrightarrow> act_predecessor a = None \<or>
           (act_predecessor a \<noteq> act_item a \<and> act_predecessor a \<in> entry_id ` set es)"
  shows "predecessors_valid (case_ADD_ANIMATION v a es)"
proof (cases "entryIndex es (act_item a) = -1")
  case True
  then have "case_ADD_ANIMATION v a es = es @
      [\<lparr>entry_id = act_item a, parent = (if v then act_predecessor a else None),
        animationType = None, duration = None, delay = None, status = None\<rparr>]"
    by (simp add: case_ADD_ANIMATION_def Let_def)
  moreover have "predecessors_valid (es @
      [\<lparr>entry_id = act_item a, parent = (if v then act_predecessor a else None),
        animationType = None, duration = None, delay = None, status = None\<rparr>])"
    using assms(2) by (intro predecessors_valid_append[OF assms(1)]) auto
  ultimately show ?thesis by simp
next
  case False
  note found = entryIndex_found[OF False]
  have "predecessors_valid (assign_at es (entryIndex es (act_item a))
      (\<lambda>e. e\<lparr>parent := (if v then act_predecessor a else None)\<rparr>))"
    using assms(2) found(1,2)
    by (intro predecessors_valid_assign_at[OF assms(1)]) auto
  then show ?thesis using False by (simp add: case_ADD_ANIMATION_def Let_def)
qed

lemma predecessors_valid_case_CHANGE_ANIMATION_TYPE:
  assumes "predecessors_valid es"
  shows "predecessors_valid (fst (case_CHANGE_ANIMATION_TYPE a es))"
proof (cases "entryIndex es (act_item a) = -1")
  case True
  have "predecessors_valid (es @
      [\<lparr>entry_id = act_item a, parent = None, animationType = act_animationType a,
        duration = None, delay = None, status = None\<rparr>])"
    by (intro predecessors_valid_append[OF assms]) simp
  then show ?thesis using True by (simp add: case_CHANGE_ANIMATION_TYPE_def Let_def)
next
  case False
  have "predecessors_valid (assign_at es (entryIndex es (act_item a))
      (\<lambda>e. e\<lparr>animationType := act_animationType a\<rparr>))"
    by (intro predecessors_valid_assign_at[OF assms]) simp_all
  then show ?thesis
    using False
    by (simp add: case_CHANGE_ANIMATION_TYPE_def Let_def predecessors_valid_reparent_loop)
qed

lemma predecessors_valid_map:
  assumes "predecessors_valid es"
    and "\<And>e. entry_id (f e) = entry_id e" and "\<And>e. parent (f e) = parent e"
  shows "predecessors_valid (map f es)"
  by (rule predecessors_valid_rewrite[OF assms(1)]) (simp_all add: assms(2,3) comp_def)

lemma predecessors_valid_cases:
  assumes "predecessors_valid es"
  shows "predecessors_valid (case_CHANGE_ANIMATION_DURATION a es)"
    and "predecessors_valid (case_CHANGE_ANIMATION_DELAY a es)"
    and "predecessors_valid (case_PLAY_ANIMATION a es)"
    and "predecessors_valid (case_STOP_ANIMATION a es)"
proof -
  have w: "predecessors_valid (assign_at es k f)"
    if "\<And>e. entry_id (f e) = entry_id e" "\<And>e. parent (f e) = parent e" for k f
    using that by (intro predecessors_valid_assign_at[OF assms]) simp_all
  show "predecessors_valid (case_CHANGE_ANIMATION_DURATION a es)"
    using assms by (simp add: case_CHANGE_ANIMATION_DURATION_def Let_def w)
  show "predecessors_valid (case_CHANGE_ANIMATION_DELAY a es)"
    using assms by (simp add: case_CHANGE_ANIMATION_DELAY_def Let_def w)
  show "predecessors_valid (case_PLAY_ANIMATION a es)"
    using assms by (simp add: case_PLAY_ANIMATION_def Let_def w predecessors_valid_map)
  show "predecessors_valid (case_STOP_ANIMATION a es)"
    using assms by (simp add: case_STOP_ANIMATION_def Let_def w predecessors_valid_map)
qed

lemma isValidAnimationPredecessor_sound:
  "isValidAnimationPredecessor s page item (Some p) \<Longrightarrow>
   Some p \<noteq> item \<and> Some p \<in> entry_id ` set (page_entries s (property_key page))"
  by (simp add: isValidAnimationPredecessor_def)

lemma animations_preserves_predecessors_valid_array:
  assumes sound: "\<And>s page item p. isValid s page item (Some p) \<Longrightarrow>
      Some p \<noteq> item \<and> Some p \<in> entry_id ` set (page_entries s (property_key page))"
    and valid: "\<And>k. predecessors_valid (page_entries s k)"
    and lk: "pageAnimationOrder_lookup s (property_key (act_page a)) =
      Some (page_entries s (property_key (act_page a)))"
  shows "predecessors_valid (page_entries (state_after s (animations isValid s a)) k)"
proof -
  let ?k = "property_key (act_page a)"
  let ?es = "page_entries s ?k"
  have *: "predecessors_valid (page_entries (with_page s ?k es1) k)"
    if "predecessors_valid es1" for es1
    using that valid by (simp add: page_entries_with_page)
  have **: "predecessors_valid (page_entries (written_in_place s ?k es1) k)"
    if "predecessors_valid es1" for es1
    using that valid by (simp add: page_entries_written_in_place)
  consider (add) "act_type a = ''ADD_ANIMATION''"
    | (type) "act_type a = ''CHANGE_ANIMATION_TYPE''"
    | (duration) "act_type a = ''CHANGE_ANIMATION_DURATION''"
    | (delay) "act_type a = ''CHANGE_ANIMATION_DELAY''"
    | (play) "act_type a = ''PLAY_ANIMATION''"
    | (stop) "act_type a = ''STOP_ANIMATION''"
    | (other) "act_type a \<notin> {''ADD_ANIMATION'', ''CHANGE_ANIMATION_TYPE'',
        ''CHANGE_ANIMATION_DURATION'', ''CHANGE_ANIMATION_DELAY'', ''PLAY_ANIMATION'',
        ''STOP_ANIMATION''}"
    by blast
  then show ?thesis
  proof cases
    case add
    have accepted: "isValid s (act_page a) (act_item a) (act_predecessor a) \<longrightarrow>
        act_predecessor a = None \<or>
        (act_predecessor a \<noteq> act_item a \<and> act_predecessor a \<in> entry_id ` set ?es)"
      using sound[of s "act_page a" "act_item a"] by (cases "act_predecessor a") auto
    have "predecessors_valid
        (case_ADD_ANIMATION (isValid s (act_page a) (act_item a) (act_predecessor a)) a ?es)"
      using valid accepted by (rule predecessors_valid_case_ADD_ANIMATION)
    then show ?thesis using add * by (simp add: lk animations_ADD_ANIMATION)
  next
    case type
    obtain es1 e where c: "case_CHANGE_ANIMATION_TYPE a ?es = (es1, e)"
      by (cases "case_CHANGE_ANIMATION_TYPE a ?es")
    with predecessors_valid_case_CHANGE_ANIMATION_TYPE[OF valid, of a ?k]
    have v: "predecessors_valid es1" by simp
    show ?thesis
      using type c *[OF v] **[OF v]
      by (cases e) (simp_all add: lk animations_CHANGE_ANIMATION_TYPE)
  next
    case duration
    then show ?thesis
      using *[OF predecessors_valid_cases(1)[OF valid]]
      by (simp add: lk animations_CHANGE_ANIMATION_DURATION)
  next
    case delay
    then show ?thesis
      using *[OF predecessors_valid_cases(2)[OF valid]]
      by (simp add: lk animations_CHANGE_ANIMATION_DELAY)
  next
    case play
    then show ?thesis
      using *[OF predecessors_valid_cases(3)[OF valid]]
      by (simp add: lk animations_PLAY_ANIMATION)
  next
    case stop
    then show ?thesis
      using *[OF predecessors_valid_cases(4)[OF valid]]
      by (simp add: lk animations_STOP_ANIMATION)
  next
    case other
    then have "animations isValid s a = Return_State" by (rule animations_default)
    then show ?thesis using valid by simp
  qed
qed

lemma animations_preserves_predecessors_valid:
  assumes sound: "\<And>s page item p. isValid s page item (Some p) \<Longrightarrow>
      Some p \<noteq> item \<and> Some p \<in> entry_id ` set (page_entries s (property_key page))"
    and valid: "\<And>k. predecessors_valid (page_entries s k)"
  shows "predecessors_valid (page_entries (state_after s (animations isValid s a)) k)"
proof (cases rule: pageAnimationOrder_lookup_cases[of s "property_key (act_page a)"])
  case inherited
  then have "state_after s (animations isValid s a) = s" by (intro animations_no_array)
  then show ?thesis using valid by simp
next
  case array
  with sound valid show ?thesis by (rule animations_preserves_predecessors_valid_array)
qed

lemma reachable_predecessors_valid:
  assumes sound: "\<And>s page item p. isValid s page item (Some p) \<Longrightarrow>
      Some p \<noteq> item \<and> Some p \<in> entry_id ` set (page_entries s (property_key page))"
  shows "reachable isValid s \<Longrightarrow> predecessors_valid (page_entries s k)"
proof (induction s arbitrary: k rule: reachable.induct)
  case reachable_initial
  show ?case
    by (simp add: initial_animations_state_def page_entries_def animationOrder_copy_def
        predecessors_valid_def)
next
  case (reachable_dispatch s a)
  show ?case
    using sound reachable_dispatch.IH by (rule animations_preserves_predecessors_valid)
qed

lemma invalid_predecessor_dropped:
  assumes "act_type a = ''ADD_ANIMATION''"
    and "animationOrder_copy s (property_key (act_page a)) \<noteq> None
        \<or> property_key (act_page a) \<notin> set Object_prototype_keys"
    and "\<not> isValid s (act_page a) (act_item a) (act_predecessor a)"
  shows "\<exists>s' i. animations isValid s a = Return_Object s' \<and>
     i < length (page_entries s' (property_key (act_page a))) \<and>
     entry_id (page_entries s' (property_key (act_page a)) ! i) = act_item a \<and>
     (\<forall>j<i. entry_id (page_entries s' (property_key (act_page a)) ! j) \<noteq> act_item a) \<and>
     parent (page_entries s' (property_key (act_page a)) ! i) = None"
proof -
  let ?k = "property_key (act_page a)"
  let ?es = "page_entries s ?k"
  let ?es' = "case_ADD_ANIMATION False a ?es"
  have lk: "pageAnimationOrder_lookup s ?k = Some ?es"
    using assms(2) by (rule pageAnimationOrder_lookup_array)
  have ret: "animations isValid s a = Return_Object (with_page s ?k ?es')"
    using assms(1,3) lk by (simp add: animations_ADD_ANIMATION)
  have "\<exists>i. i < length ?es' \<and> entry_id (?es' ! i) = act_item a \<and>
     (\<forall>j<i. entry_id (?es' ! j) \<noteq> act_item a) \<and> parent (?es' ! i) = None"
  proof (cases "entryIndex ?es (act_item a) = -1")
    case True
    then have eq: "?es' = ?es @ [\<lparr>entry_id = act_item a, parent = None, animationType = None,
        duration = None, delay = None, status = None\<rparr>]"
      by (simp add: case_ADD_ANIMATION_def Let_def)
    have absent: "\<forall>j<length ?es. entry_id (?es ! j) \<noteq> act_item a"
    proof (intro allI impI)
      fix j assume "j < length ?es"
      then have "?es ! j \<in> set ?es" by (rule nth_mem)
      then have "entry_id (?es ! j) \<in> entry_id ` set ?es" by (rule imageI)
      moreover from True have "act_item a \<notin> entry_id ` set ?es"
        by (simp add: entryIndex_absent)
      ultimately show "entry_id (?es ! j) \<noteq> act_item a" by metis
    qed
    show ?thesis
      apply (rule exI[of _ "length ?es"])
      unfolding eq using absent by (simp add: nth_append)
  next
    case False
    note found = entryIndex_found[OF False]
    from False have eq: "?es' = ?es[nat (entryIndex ?es (act_item a)) :=
        (?es ! nat (entryIndex ?es (act_item a)))\<lparr>parent := None\<rparr>]"
      by (simp add: case_ADD_ANIMATION_def Let_def assign_at_def)
    show ?thesis
      apply (rule exI[of _ "nat (entryIndex ?es (act_item a))"])
      unfolding eq using found by simp
  qed
  then show ?thesis unfolding ret by (simp add: page_entries_with_page)
qed

text \<open>
  C5. Let the validity check accept a predecessor only when it is the id of an entry
  of the page and not the item's own id, as the spec describes the check. Then in
  every state reachable from the default state, on every page, an entry whose parent is
  present names the id of an entry of the same page, which is not its own id. And for
  every validity check, when the check refuses the predecessor of an \<^verbatim>\<open>ADD_ANIMATION\<close>
  for a page that is an own key of the state's animation order or is not a key
  inherited from \<^verbatim>\<open>Object.prototype\<close>, the item's entry (the first with its id) has no
  parent afterwards.
\<close>

theorem predecessors_point_to_entries:
  assumes "\<And>s page item p. isValid s page item (Some p) \<Longrightarrow>
      Some p \<noteq> item \<and> Some p \<in> entry_id ` set (page_entries s (property_key page))"
  shows "(reachable isValid s \<longrightarrow>
      (\<forall>e\<in>set (page_entries s k). \<forall>p. parent e = Some p \<longrightarrow>
         Some p \<noteq> entry_id e \<and> (\<exists>e'\<in>set (page_entries s k). entry_id e' = Some p)))
   \<and> (act_type a = ''ADD_ANIMATION''
        \<and> (animationOrder_copy t (property_key (act_page a)) \<noteq> None
            \<or> property_key (act_page a) \<notin> set Object_prototype_keys)
        \<and> \<not> isValid t (act_page a) (act_item a) (act_predecessor a) \<longrightarrow>
      (\<exists>t' i. animations isValid t a = Return_Object t' \<and>
         i < length (page_entries t' (property_key (act_page a))) \<and>
         entry_id (page_entries t' (property_key (act_page a)) ! i) = act_item a \<and>
         (\<forall>j<i. entry_id (page_entries t' (property_key (act_page a)) ! j) \<noteq> act_item a) \<and>
         parent (page_entries t' (property_key (act_page a)) ! i) = None))"
proof (intro conjI impI)
  assume "reachable isValid s"
  with assms have "predecessors_valid (page_entries s k)" by (rule reachable_predecessors_valid)
  then show "\<forall>e\<in>set (page_entries s k). \<forall>p. parent e = Some p \<longrightarrow>
         Some p \<noteq> entry_id e \<and> (\<exists>e'\<in>set (page_entries s k). entry_id e' = Some p)"
    unfolding predecessors_valid_set by force
next
  assume "act_type a = ''ADD_ANIMATION''
        \<and> (animationOrder_copy t (property_key (act_page a)) \<noteq> None
            \<or> property_key (act_page a) \<notin> set Object_prototype_keys)
        \<and> \<not> isValid t (act_page a) (act_item a) (act_predecessor a)"
  then show "\<exists>t' i. animations isValid t a = Return_Object t' \<and>
         i < length (page_entries t' (property_key (act_page a))) \<and>
         entry_id (page_entries t' (property_key (act_page a)) ! i) = act_item a \<and>
         (\<forall>j<i. entry_id (page_entries t' (property_key (act_page a)) ! j) \<noteq> act_item a) \<and>
         parent (page_entries t' (property_key (act_page a)) ! i) = None"
    using invalid_predecessor_dropped by blast
qed

text \<open>
  With the check modelled from the spec: the state after adding \<open>a\<close> and then \<open>b\<close> with
  the predecessor \<open>a\<close> is reachable, and the parent of \<open>b\<close> is the id of the entry \<open>a\<close>;
  adding \<open>c\<close> to the chain \<open>a \<leftarrow> b \<leftarrow> c\<close> with the unknown predecessor \<open>x\<close> leaves \<open>c\<close>
  without a parent.
\<close>

lemma two_additions_reachable:
  "reachable isValidAnimationPredecessor \<lparr>animationOrder = Some [''page'' \<mapsto>
      [new_entry ''a'' None, new_entry ''b'' (Some ''a'')]]\<rparr>"
proof -
  let ?a1 = "(new_action ''ADD_ANIMATION'')\<lparr>act_page := Some ''page'', act_item := Some ''a''\<rparr>"
  let ?a2 = "(new_action ''ADD_ANIMATION'')\<lparr>act_page := Some ''page'', act_item := Some ''b'',
      act_predecessor := Some ''a''\<rparr>"
  let ?s1 = "\<lparr>animationOrder = Some [''page'' \<mapsto> [new_entry ''a'' None]]\<rparr>"
  have 1: "state_after initial_animations_state
      (animations isValidAnimationPredecessor initial_animations_state ?a1) = ?s1"
    by (simp add: animations_ADD_ANIMATION new_action_def case_ADD_ANIMATION_def Let_def
        initial_animations_state_def pageAnimationOrder_lookup_def Object_prototype_keys_def page_entries_def animationOrder_copy_def with_page_def
        entryIndex_def findIndex_def new_entry_def)
  have 2: "state_after ?s1 (animations isValidAnimationPredecessor ?s1 ?a2) =
      \<lparr>animationOrder = Some [''page'' \<mapsto> [new_entry ''a'' None, new_entry ''b'' (Some ''a'')]]\<rparr>"
    by (simp add: animations_ADD_ANIMATION new_action_def case_ADD_ANIMATION_def Let_def
        isValidAnimationPredecessor_def pageAnimationOrder_lookup_def page_entries_def animationOrder_copy_def with_page_def
        entryIndex_def findIndex_def new_entry_def)
  have "reachable isValidAnimationPredecessor ?s1"
    using reachable_dispatch[OF reachable_initial, of isValidAnimationPredecessor ?a1] unfolding 1 .
  then have "reachable isValidAnimationPredecessor (state_after ?s1 (animations isValidAnimationPredecessor ?s1 ?a2))"
    by (rule reachable_dispatch)
  then show ?thesis unfolding 2 .
qed

theorem predecessors_point_to_entries_witness:
  "reachable isValidAnimationPredecessor \<lparr>animationOrder = Some [''page'' \<mapsto>
      [new_entry ''a'' None, new_entry ''b'' (Some ''a'')]]\<rparr>
   \<and> new_entry ''b'' (Some ''a'') \<in> set (page_entries \<lparr>animationOrder = Some [''page'' \<mapsto>
      [new_entry ''a'' None, new_entry ''b'' (Some ''a'')]]\<rparr> ''page'')
   \<and> parent (new_entry ''b'' (Some ''a'')) = Some ''a''
   \<and> Some ''a'' \<noteq> entry_id (new_entry ''b'' (Some ''a''))
   \<and> (\<exists>e'\<in>set (page_entries \<lparr>animationOrder = Some [''page'' \<mapsto>
      [new_entry ''a'' None, new_entry ''b'' (Some ''a'')]]\<rparr> ''page''). entry_id e' = Some ''a'')
   \<and> act_type ((new_action ''ADD_ANIMATION'')\<lparr>act_page := Some ''page'', act_item := Some ''c'',
        act_predecessor := Some ''x''\<rparr>) = ''ADD_ANIMATION''
   \<and> animationOrder_copy example_state ''page'' \<noteq> None
   \<and> \<not> isValidAnimationPredecessor example_state (Some ''page'') (Some ''c'') (Some ''x'')
   \<and> (\<exists>t' i. animations isValidAnimationPredecessor example_state
          ((new_action ''ADD_ANIMATION'')\<lparr>act_page := Some ''page'', act_item := Some ''c'',
             act_predecessor := Some ''x''\<rparr>) = Return_Object t'
        \<and> i < length (page_entries t' ''page'')
        \<and> entry_id (page_entries t' ''page'' ! i) = Some ''c''
        \<and> parent (page_entries t' ''page'' ! i) = None)"
proof -
  let ?w = "\<lparr>animationOrder = Some [''page'' \<mapsto>
      [new_entry ''a'' None, new_entry ''b'' (Some ''a'')]]\<rparr>"
  let ?x = "(new_action ''ADD_ANIMATION'')\<lparr>act_page := Some ''page'', act_item := Some ''c'',
        act_predecessor := Some ''x''\<rparr>"
  have r: "reachable isValidAnimationPredecessor ?w" by (rule two_additions_reachable)
  have m: "new_entry ''b'' (Some ''a'') \<in> set (page_entries ?w ''page'')"
    by (simp add: page_entries_def animationOrder_copy_def)
  have p: "parent (new_entry ''b'' (Some ''a'')) = Some ''a''" by (simp add: new_entry_def)
  have t: "act_type ?x = ''ADD_ANIMATION''" by (simp add: new_action_def)
  have f: "act_page ?x = Some ''page''" "act_item ?x = Some ''c''" "act_predecessor ?x = Some ''x''"
    by (simp_all add: new_action_def)
  have inv: "\<not> isValidAnimationPredecessor example_state (Some ''page'') (Some ''c'') (Some ''x'')"
    by (simp add: isValidAnimationPredecessor_def page_entries_example example_entries_def
        new_entry_def)
  note inst = predecessors_point_to_entries[of isValidAnimationPredecessor ?w "''page''" ?x
      example_state, OF isValidAnimationPredecessor_sound]
  from inst r m p have 1: "Some ''a'' \<noteq> entry_id (new_entry ''b'' (Some ''a''))
     \<and> (\<exists>e'\<in>set (page_entries ?w ''page''). entry_id e' = Some ''a'')"
    by blast
  note own = own_key_example
  have o: "animationOrder_copy example_state (property_key (act_page ?x)) \<noteq> None
        \<or> property_key (act_page ?x) \<notin> set Object_prototype_keys"
    unfolding f property_key.simps using own by (rule disjI1)
  from inst t o inv have 2: "\<exists>t' i. animations isValidAnimationPredecessor example_state ?x = Return_Object t'
        \<and> i < length (page_entries t' ''page'')
        \<and> entry_id (page_entries t' ''page'' ! i) = Some ''c''
        \<and> parent (page_entries t' ''page'' ! i) = None"
    unfolding f property_key.simps by blast
  show ?thesis using r m p 1 t own inv 2 by blast
qed

subsection \<open>Unrecognised actions\<close>

text \<open>
  C6. On an action whose type is none of a reducer's cases, the reducer executes
  \<^verbatim>\<open>return state;\<close>: what it returns is the object it was given, not a copy, so the
  state after the action is the state before it. For \<open>currentPage\<close> the state is a
  string or \<^verbatim>\<open>undefined\<close>, a value without identity, and the value returned is the value
  given.
\<close>

theorem unrecognised_action_returns_state:
  "(act_type a \<notin> {''ADD_ANIMATION'', ''CHANGE_ANIMATION_TYPE'', ''CHANGE_ANIMATION_DURATION'',
        ''CHANGE_ANIMATION_DELAY'', ''PLAY_ANIMATION'', ''STOP_ANIMATION''} \<longrightarrow>
      animations isValid s a = Return_State \<and> state_after s (animations isValid s a) = s)
   \<and> (act_type a \<noteq> ''SET_CURRENT_PAGE'' \<longrightarrow> currentPage p a = p)
   \<and> (act_type a \<notin> {''START_REORDERING'', ''STOP_REORDERING'', ''MOVE_PAGE'', ''RESET_ORDER''} \<longrightarrow>
      blocks b a = Return_State \<and> state_after b (blocks b a) = b)"
proof (intro conjI impI)
  assume t: "act_type a \<notin> {''ADD_ANIMATION'', ''CHANGE_ANIMATION_TYPE'',
      ''CHANGE_ANIMATION_DURATION'', ''CHANGE_ANIMATION_DELAY'', ''PLAY_ANIMATION'',
      ''STOP_ANIMATION''}"
  then show r: "animations isValid s a = Return_State" by (rule animations_default)
  then show "state_after s (animations isValid s a) = s" by simp
next
  assume "act_type a \<noteq> ''SET_CURRENT_PAGE''"
  then show "currentPage p a = p" by (simp add: currentPage_def)
next
  assume t: "act_type a \<notin> {''START_REORDERING'', ''STOP_REORDERING'', ''MOVE_PAGE'', ''RESET_ORDER''}"
  then show r: "blocks b a = Return_State" by (rule blocks_default)
  then show "state_after b (blocks b a) = b" by simp
qed

text \<open>
  An action of the type \<^verbatim>\<open>@@INIT\<close> on each of the three reducers.
\<close>

theorem unrecognised_action_returns_state_witness:
  "act_type (new_action ''@@INIT'') \<notin> {''ADD_ANIMATION'', ''CHANGE_ANIMATION_TYPE'',
        ''CHANGE_ANIMATION_DURATION'', ''CHANGE_ANIMATION_DELAY'', ''PLAY_ANIMATION'',
        ''STOP_ANIMATION''}
   \<and> act_type (new_action ''@@INIT'') \<noteq> ''SET_CURRENT_PAGE''
   \<and> act_type (new_action ''@@INIT'') \<notin> {''START_REORDERING'', ''STOP_REORDERING'',
        ''MOVE_PAGE'', ''RESET_ORDER''}
   \<and> animations isValidAnimationPredecessor example_state (new_action ''@@INIT'') = Return_State
   \<and> state_after example_state
        (animations isValidAnimationPredecessor example_state (new_action ''@@INIT'')) = example_state
   \<and> currentPage (Some ''page'') (new_action ''@@INIT'') = Some ''page''
   \<and> blocks \<lparr>order = Some [''page'', ''other''], isReordering = Some False\<rparr>
        (new_action ''@@INIT'') = Return_State"
proof -
  have h1: "act_type (new_action ''@@INIT'') \<notin> {''ADD_ANIMATION'', ''CHANGE_ANIMATION_TYPE'',
        ''CHANGE_ANIMATION_DURATION'', ''CHANGE_ANIMATION_DELAY'', ''PLAY_ANIMATION'',
        ''STOP_ANIMATION''}"
    by (simp add: new_action_def)
  have h2: "act_type (new_action ''@@INIT'') \<noteq> ''SET_CURRENT_PAGE''"
    by (simp add: new_action_def)
  have h3: "act_type (new_action ''@@INIT'') \<notin> {''START_REORDERING'', ''STOP_REORDERING'',
        ''MOVE_PAGE'', ''RESET_ORDER''}"
    by (simp add: new_action_def)
  show ?thesis
    using h1 h2 h3
      unrecognised_action_returns_state[of "new_action ''@@INIT''" isValidAnimationPredecessor
        example_state "Some ''page''" "\<lparr>order = Some [''page'', ''other''], isReordering = Some False\<rparr>"]
    by blast
qed

subsection \<open>Moving a page\<close>

lemma splice_start_le: "splice_start r len \<le> len"
  unfolding splice_start_def by auto

lemma splice_start_index: "i \<le> len \<Longrightarrow> splice_start (int i) len = i"
  by (simp add: splice_start_def)

lemma splice_array_delete_one:
  assumes "i < length xs"
  shows "splice_array xs (int i) (Suc 0) [] = (take i xs @ drop (Suc i) xs, [xs ! i])"
proof -
  have s: "splice_start (int i) (length xs) = i"
    using assms by (simp add: splice_start_index)
  have m: "min (Suc 0) (length xs - i) = Suc 0" using assms by simp
  have "take (Suc 0) (drop i xs) = [xs ! i]"
    using assms by (simp add: take_Suc_conv_app_nth)
  then show ?thesis
    unfolding splice_array_def Let_def s m by simp
qed

lemma splice_array_insert:
  "splice_array xs r 0 items =
     (take (splice_start r (length xs)) xs @ items @ drop (splice_start r (length xs)) xs, [])"
  by (simp add: splice_array_def Let_def)

lemma indexOf_found:
  assumes "p \<in> set xs"
  shows "indexOf xs (Some p) \<noteq> -1" and "0 \<le> indexOf xs (Some p)"
    and "nat (indexOf xs (Some p)) < length xs"
    and "xs ! nat (indexOf xs (Some p)) = p"
    and "\<forall>j < nat (indexOf xs (Some p)). xs ! j \<noteq> p"
proof -
  from assms show found: "indexOf xs (Some p) \<noteq> -1"
    by (auto simp: indexOf_def findIndex_absent)
  then have f: "findIndex (\<lambda>x. Some x = Some p) xs \<noteq> -1" by (simp add: indexOf_def)
  from findIndex_found[OF f]
  show "0 \<le> indexOf xs (Some p)" "nat (indexOf xs (Some p)) < length xs"
    "xs ! nat (indexOf xs (Some p)) = p" "\<forall>j < nat (indexOf xs (Some p)). xs ! j \<noteq> p"
    by (auto simp: indexOf_def)
qed

text \<open>
  An element inserted at a position \<open>k\<close> within a list.
\<close>

lemma inserted_at:
  assumes "k \<le> length sh"
  shows "length (take k sh @ p # drop k sh) = Suc (length sh)"
    and "(take k sh @ p # drop k sh) ! k = p"
    and "take k (take k sh @ p # drop k sh) @ drop (Suc k) (take k sh @ p # drop k sh) = sh"
    and "mset (take k sh @ p # drop k sh) = add_mset p (mset sh)"
proof -
  have lk: "length (take k sh) = k" using assms by simp
  show "length (take k sh @ p # drop k sh) = Suc (length sh)" using assms by simp
  show "(take k sh @ p # drop k sh) ! k = p"
    using nth_append_length[of "take k sh" p "drop k sh"] lk by simp
  have "take k (take k sh @ p # drop k sh) = take k sh" using lk by simp
  moreover have "drop (Suc k) (take k sh @ p # drop k sh) = drop k sh" using lk by simp
  ultimately show "take k (take k sh @ p # drop k sh) @ drop (Suc k) (take k sh @ p # drop k sh) = sh"
    by (simp only: append_take_drop_id)
  have a: "mset (take k sh @ p # drop k sh) = add_mset p (mset (take k sh) + mset (drop k sh))"
    by simp
  have b: "mset (take k sh) + mset (drop k sh) = mset sh"
    by (metis append_take_drop_id mset_append)
  show "mset (take k sh @ p # drop k sh) = add_mset p (mset sh)"
    by (simp only: a b)
qed

lemma blocks_MOVE_PAGE:
  assumes "act_type a = ''MOVE_PAGE''" and "order s = Some xs" and "act_page a = Some p"
    and "p \<in> set xs"
    and "sh = take (nat (indexOf xs (Some p))) xs @ drop (Suc (nat (indexOf xs (Some p)))) xs"
  shows "blocks s a = Return_Object (s\<lparr>order := Some
    (take (splice_start (to_integer (act_index a)) (length sh)) sh
     @ p # drop (splice_start (to_integer (act_index a)) (length sh)) sh)\<rparr>)"
proof -
  note f = indexOf_found[OF assms(4)]
  have i: "indexOf xs (Some p) = int (nat (indexOf xs (Some p)))" using f(2) by simp
  have del: "splice_array xs (indexOf xs (Some p)) (Suc 0) [] = (sh, [p])"
    using splice_array_delete_one[OF f(3)] f(4) i assms(5) by simp
  show ?thesis
    using assms(1-3)
    by (simp add: blocks_def Let_def del splice_array_insert)
qed

text \<open>
  C4. \<^verbatim>\<open>MOVE_PAGE\<close> on a state whose order contains the page returns an order of the
  same length with the same elements (as a multiset, hence as a set). The page, taken
  from its first position \<open>i\<close>, stands at position \<open>k\<close>, the action's index clamped as
  \<^verbatim>\<open>splice\<close> clamps it; without the element at \<open>k\<close> the new order is the old order
  without the element at \<open>i\<close>, so all other elements keep their relative order. The
  other keys of the state are unchanged.
\<close>

theorem move_page_relocates_one_element:
  assumes "act_type a = ''MOVE_PAGE''" and "order s = Some xs" and "act_page a = Some p"
    and "p \<in> set xs"
  shows "\<exists>s' ys i k. blocks s a = Return_Object s' \<and> order s' = Some ys \<and>
    isReordering s' = isReordering s \<and> blocks_state.more s' = blocks_state.more s \<and>
    length ys = length xs \<and> mset ys = mset xs \<and> set ys = set xs \<and>
    i < length xs \<and> xs ! i = p \<and> (\<forall>j<i. xs ! j \<noteq> p) \<and>
    k = splice_start (to_integer (act_index a)) (length xs - 1) \<and>
    k < length ys \<and> ys ! k = p \<and>
    take k ys @ drop (Suc k) ys = take i xs @ drop (Suc i) xs"
proof -
  define i where "i = nat (indexOf xs (Some p))"
  define sh where "sh = take i xs @ drop (Suc i) xs"
  define k where "k = splice_start (to_integer (act_index a)) (length sh)"
  define ys where "ys = take k sh @ p # drop k sh"
  note f = indexOf_found[OF assms(4), folded i_def]
  have len_sh: "length sh = length xs - 1" using f(3) by (simp add: sh_def)
  have k: "k \<le> length sh" unfolding k_def by (rule splice_start_le)
  have xs: "xs = take i xs @ p # drop (Suc i) xs"
    using id_take_nth_drop[OF f(3)] f(4) by simp
  have ret: "blocks s a = Return_Object (s\<lparr>order := Some ys\<rparr>)"
    unfolding ys_def k_def
    by (rule blocks_MOVE_PAGE[OF assms]) (simp add: sh_def i_def)
  note ins = inserted_at[OF k, of p, folded ys_def]
  have len: "length ys = length xs" using ins(1) len_sh f(3) by simp
  have "mset xs = mset (take i xs @ p # drop (Suc i) xs)" using xs by simp
  also have "\<dots> = add_mset p (mset sh)" by (simp add: sh_def)
  finally have ms: "mset ys = mset xs" using ins(4) by simp
  then have st: "set ys = set xs" by (rule mset_eq_setD)
  have klt: "k < length ys" using k ins(1) by simp
  have k_eq: "k = splice_start (to_integer (act_index a)) (length xs - 1)"
    using len_sh by (simp add: k_def)
  have rest: "take k ys @ drop (Suc k) ys = take i xs @ drop (Suc i) xs"
    using ins(3) by (simp add: sh_def)
  have "blocks s a = Return_Object (s\<lparr>order := Some ys\<rparr>) \<and>
    order (s\<lparr>order := Some ys\<rparr>) = Some ys \<and>
    isReordering (s\<lparr>order := Some ys\<rparr>) = isReordering s \<and>
    blocks_state.more (s\<lparr>order := Some ys\<rparr>) = blocks_state.more s \<and>
    length ys = length xs \<and> mset ys = mset xs \<and> set ys = set xs \<and>
    i < length xs \<and> xs ! i = p \<and> (\<forall>j<i. xs ! j \<noteq> p) \<and>
    k = splice_start (to_integer (act_index a)) (length xs - 1) \<and>
    k < length ys \<and> ys ! k = p \<and>
    take k ys @ drop (Suc k) ys = take i xs @ drop (Suc i) xs"
    using ret len ms st f(3,4,5) k_eq klt ins(2) rest by simp
  then show ?thesis by blast
qed

text \<open>
  Moving the first of three pages to the index 2.
\<close>

theorem move_page_relocates_one_element_witness:
  "act_type ((new_action ''MOVE_PAGE'')\<lparr>act_page := Some ''p1'', act_index := Some 2\<rparr>) = ''MOVE_PAGE''
   \<and> order \<lparr>order = Some [''p1'', ''p2'', ''p3''], isReordering = Some True\<rparr>
        = Some [''p1'', ''p2'', ''p3'']
   \<and> act_page ((new_action ''MOVE_PAGE'')\<lparr>act_page := Some ''p1'', act_index := Some 2\<rparr>) = Some ''p1''
   \<and> ''p1'' \<in> set [''p1'', ''p2'', ''p3'']
   \<and> (\<exists>s' ys. blocks \<lparr>order = Some [''p1'', ''p2'', ''p3''], isReordering = Some True\<rparr>
          ((new_action ''MOVE_PAGE'')\<lparr>act_page := Some ''p1'', act_index := Some 2\<rparr>) = Return_Object s'
        \<and> order s' = Some ys \<and> length ys = 3 \<and> mset ys = {#''p1'', ''p2'', ''p3''#}
        \<and> ys ! 2 = ''p1'')
   \<and> blocks \<lparr>order = Some [''p1'', ''p2'', ''p3''], isReordering = Some True\<rparr>
          ((new_action ''MOVE_PAGE'')\<lparr>act_page := Some ''p1'', act_index := Some 2\<rparr>)
        = Return_Object \<lparr>order = Some [''p2'', ''p3'', ''p1''], isReordering = Some True\<rparr>"
proof -
  let ?a = "(new_action ''MOVE_PAGE'')\<lparr>act_page := Some ''p1'', act_index := Some 2\<rparr>"
  let ?s = "\<lparr>order = Some [''p1'', ''p2'', ''p3''], isReordering = Some True\<rparr>"
  have h: "act_type ?a = ''MOVE_PAGE''" "order ?s = Some [''p1'', ''p2'', ''p3'']"
    "act_page ?a = Some ''p1''" "''p1'' \<in> set [''p1'', ''p2'', ''p3'']"
    by (simp_all add: new_action_def)
  have k: "splice_start (to_integer (act_index ?a)) (length [''p1'', ''p2'', ''p3''] - 1) = 2"
    by (simp add: new_action_def splice_start_def)
  from move_page_relocates_one_element[OF h]
  obtain s' ys where r: "blocks ?s ?a = Return_Object s'" "order s' = Some ys"
    "length ys = length [''p1'', ''p2'', ''p3'']" "mset ys = mset [''p1'', ''p2'', ''p3'']"
    "ys ! 2 = ''p1''"
    unfolding k by blast
  have ev: "blocks ?s ?a = Return_Object \<lparr>order = Some [''p2'', ''p3'', ''p1''], isReordering = Some True\<rparr>"
    by code_simp
  have "\<exists>s' ys. blocks ?s ?a = Return_Object s'
        \<and> order s' = Some ys \<and> length ys = 3 \<and> mset ys = {#''p1'', ''p2'', ''p3''#}
        \<and> ys ! 2 = ''p1''"
    using r by (intro exI[of _ s'] exI[of _ ys]) simp
  then show ?thesis using h ev by blast
qed

text \<open>
  Outside the hypothesis: for a page that the order does not contain, \<^verbatim>\<open>indexOf\<close> gives
  \<open>-1\<close> and \<^verbatim>\<open>splice\<close> takes the last element; with no order in the state, reading
  \<^verbatim>\<open>state.order.indexOf\<close> throws.
\<close>

lemma move_absent_page_moves_last:
  "blocks \<lparr>order = Some [''p1'', ''p2'', ''p3''], isReordering = Some True\<rparr>
     ((new_action ''MOVE_PAGE'')\<lparr>act_page := Some ''p4'', act_index := Some 0\<rparr>)
   = Return_Object \<lparr>order = Some [''p3'', ''p1'', ''p2''], isReordering = Some True\<rparr>
   \<and> blocks \<lparr>order = None, isReordering = None\<rparr>
     ((new_action ''MOVE_PAGE'')\<lparr>act_page := Some ''p1'', act_index := Some 0\<rparr>)
   = Throw TypeError \<lparr>order = None, isReordering = None\<rparr>"
  by code_simp

subsection \<open>The right-click wrapper\<close>

text \<open>
  C9. A block that is neither the page block nor an allowed child block, and any block
  while the editor is reordering, is rendered as the given edit component alone, with
  no context-menu handler. A page block or allowed child block outside reordering is
  rendered as that component inside an element that carries the handler.
\<close>

theorem right_click_wrapper:
  "(name props \<noteq> ''amp/amp-story-page'' \<and> name props \<notin> set ALLOWED_CHILD_BLOCKS \<longrightarrow>
      withRightClickHandler ALLOWED_CHILD_BLOCKS BlockEdit props = Component BlockEdit props)
   \<and> (prop_isReordering props \<longrightarrow>
      withRightClickHandler ALLOWED_CHILD_BLOCKS BlockEdit props = Component BlockEdit props)
   \<and> ((name props = ''amp/amp-story-page'' \<or> name props \<in> set ALLOWED_CHILD_BLOCKS)
        \<and> \<not> prop_isReordering props \<longrightarrow>
      withRightClickHandler ALLOWED_CHILD_BLOCKS BlockEdit props =
        Div_onContextMenu (onContextMenu props) (Component BlockEdit props))"
  by (auto simp: withRightClickHandler_def Let_def)

text \<open>
  A paragraph block that is not allowed, an image block while reordering, and an image
  block outside reordering, with images among the allowed blocks.
\<close>

theorem right_click_wrapper_witness:
  "name \<lparr>name = ''core/paragraph'', onContextMenu = (), prop_isReordering = False\<rparr>
       \<noteq> ''amp/amp-story-page''
   \<and> name \<lparr>name = ''core/paragraph'', onContextMenu = (), prop_isReordering = False\<rparr>
       \<notin> set [''amp/amp-story-text'', ''core/image'']
   \<and> withRightClickHandler [''amp/amp-story-text'', ''core/image''] ()
        \<lparr>name = ''core/paragraph'', onContextMenu = (), prop_isReordering = False\<rparr>
      = Component () \<lparr>name = ''core/paragraph'', onContextMenu = (), prop_isReordering = False\<rparr>
   \<and> prop_isReordering \<lparr>name = ''core/image'', onContextMenu = (), prop_isReordering = True\<rparr>
   \<and> withRightClickHandler [''amp/amp-story-text'', ''core/image''] ()
        \<lparr>name = ''core/image'', onContextMenu = (), prop_isReordering = True\<rparr>
      = Component () \<lparr>name = ''core/image'', onContextMenu = (), prop_isReordering = True\<rparr>
   \<and> name \<lparr>name = ''core/image'', onContextMenu = (), prop_isReordering = False\<rparr>
       \<in> set [''amp/amp-story-text'', ''core/image'']
   \<and> withRightClickHandler [''amp/amp-story-text'', ''core/image''] ()
        \<lparr>name = ''core/image'', onContextMenu = (), prop_isReordering = False\<rparr>
      = Div_onContextMenu ()
          (Component () \<lparr>name = ''core/image'', onContextMenu = (), prop_isReordering = False\<rparr>)"
proof -
  let ?allowed = "[''amp/amp-story-text'', ''core/image'']"
  let ?p1 = "\<lparr>name = ''core/paragraph'', onContextMenu = (), prop_isReordering = False\<rparr>"
  let ?p2 = "\<lparr>name = ''core/image'', onContextMenu = (), prop_isReordering = True\<rparr>"
  let ?p3 = "\<lparr>name = ''core/image'', onContextMenu = (), prop_isReordering = False\<rparr>"
  have h1: "name ?p1 \<noteq> ''amp/amp-story-page''" "name ?p1 \<notin> set ?allowed" by simp_all
  have h2: "prop_isReordering ?p2" by simp
  have h3: "name ?p3 \<in> set ?allowed" "\<not> prop_isReordering ?p3" by simp_all
  show ?thesis
    using h1 h2 h3 right_click_wrapper[of ?p1 ?allowed "()"]
      right_click_wrapper[of ?p2 ?allowed "()"] right_click_wrapper[of ?p3 ?allowed "()"]
    by simp
qed

end
